theory Spec2Isabelle
  imports Complex_Main "HOL-Library.Multiset"
begin

section \<open>Numbers, vectors and colours\<close>

text \<open>
  The generator is read at two levels.

  At the first level, which these sections define, a JavaScript number is an exact real,
  and \<open>depth\<close> and \<open>count\<close> are integers (\<open>int\<close>), as the callers pass them. This
  level settles what no rounding can change once a call returns: how many particles and
  leaf nodes a call emits, into which arrays and at which index, how many outcomes it
  draws from the random source, and which leaf nodes the photos hang from.

  At the second level (the definitions whose names end in \<open>_f64\<close>, further down) a number
  is an IEEE 754 double: every operation rounds, overflows to an infinity or yields NaN
  as the machine does, and a loop bounded by a double runs on a budget, since it need not
  end. What depends on the arithmetic is settled there: whether a call returns, what it
  does with a negative depth or a branch length that is not finite, how many children a
  branch spawns, and how the expansion factor moves.

  \<open>THREE.Vector3\<close> and \<open>THREE.Color\<close> belong to the three.js library. Only the
  methods the generator calls are modelled, by their library definitions. Every
  vector the generator mutates is a fresh clone, so vectors are plain values.
\<close>

datatype Vector3 = Vector3 (vx: real) (vy: real) (vz: real)

datatype Color = Color (cr: real) (cg: real) (cb: real)

definition Vector3_add :: "Vector3 \<Rightarrow> Vector3 \<Rightarrow> Vector3" where
  "Vector3_add a b = Vector3 (vx a + vx b) (vy a + vy b) (vz a + vz b)"

definition multiplyScalar :: "Vector3 \<Rightarrow> real \<Rightarrow> Vector3" where
  "multiplyScalar a s = Vector3 (vx a * s) (vy a * s) (vz a * s)"

definition crossVectors :: "Vector3 \<Rightarrow> Vector3 \<Rightarrow> Vector3" where
  "crossVectors a b =
     Vector3 (vy a * vz b - vz a * vy b) (vz a * vx b - vx a * vz b) (vx a * vy b - vy a * vx b)"

definition Vector3_length :: "Vector3 \<Rightarrow> real" where
  "Vector3_length a = sqrt (vx a * vx a + vy a * vy a + vz a * vz a)"

text \<open>\<open>normalize\<close> divides by \<open>length() || 1\<close>: the zero vector stays zero.\<close>

definition normalize :: "Vector3 \<Rightarrow> Vector3" where
  "normalize a =
     (let l = (if Vector3_length a = 0 then 1 else Vector3_length a)
      in Vector3 (vx a / l) (vy a / l) (vz a / l))"

definition lerpVectors :: "Vector3 \<Rightarrow> Vector3 \<Rightarrow> real \<Rightarrow> Vector3" where
  "lerpVectors a b alpha =
     Vector3 (vx a + (vx b - vx a) * alpha) (vy a + (vy b - vy a) * alpha)
       (vz a + (vz b - vz a) * alpha)"

definition Color_lerp :: "Color \<Rightarrow> Color \<Rightarrow> real \<Rightarrow> Color" where
  "Color_lerp a b alpha =
     Color (cr a + (cr b - cr a) * alpha) (cg a + (cg b - cg a) * alpha)
       (cb a + (cb b - cb a) * alpha)"

text \<open>
  A colour written \<open>#rrggbb\<close>, by its three bytes. The colour-space conversion three.js
  may apply on top is not modelled; no property below reads a colour component.
\<close>

definition hexColor :: "nat \<Rightarrow> nat \<Rightarrow> nat \<Rightarrow> Color" where
  "hexColor r g b = Color (real r / 255) (real g / 255) (real b / 255)"

definition woodColorBase :: Color where
  "woodColorBase = hexColor 0x1a 0x0b 0x08"

definition woodColorVar :: Color where
  "woodColorVar = hexColor 0x3e 0x2b 0x24"

definition blossomColors :: "Color list" where
  "blossomColors =
     [hexColor 0xff 0xb7 0xc5, hexColor 0xff 0xc0 0xcb, hexColor 0xff 0xe4 0xe1,
      hexColor 0xff 0xff 0xff, hexColor 0xff 0x9e 0xb5]"

section \<open>The random source\<close>

text \<open>
  \<open>Math.random()\<close> is unseeded. The model makes the source explicit: the stream of
  all future outcomes, of which each call takes the head. The contract of
  \<open>Math.random\<close>, an outcome in \<open>[0, 1)\<close>, is the predicate \<open>valid_rng\<close>.
\<close>

type_synonym rng = "nat \<Rightarrow> real"

definition advance :: "nat \<Rightarrow> rng \<Rightarrow> rng" where
  "advance k g = (\<lambda>n. g (n + k))"

definition valid_rng :: "rng \<Rightarrow> bool" where
  "valid_rng g = (\<forall>n. 0 \<le> g n \<and> g n < 1)"

definition Math_random :: "rng \<Rightarrow> real \<times> rng" where
  "Math_random g = (g 0, advance 1 g)"

definition randomRange :: "real \<Rightarrow> real \<Rightarrow> rng \<Rightarrow> real \<times> rng" where
  "randomRange lo hi g = (case Math_random g of (x, g') \<Rightarrow> (x * (hi - lo) + lo, g'))"

section \<open>ParticleBuffer\<close>

record ParticleBuffer =
  positions :: "real list"
  targetPositions :: "real list"
  colors :: "real list"
  sizes :: "real list"
  drifts :: "real list"
  phases :: "real list"

definition ParticleBuffer_new :: ParticleBuffer where
  "ParticleBuffer_new =
     \<lparr>positions = [], targetPositions = [], colors = [], sizes = [], drifts = [], phases = []\<rparr>"

definition ParticleBuffer_add ::
  "ParticleBuffer \<Rightarrow> Vector3 \<Rightarrow> Vector3 \<Rightarrow> Color \<Rightarrow> real \<Rightarrow> Vector3 \<Rightarrow> real \<Rightarrow> ParticleBuffer" where
  "ParticleBuffer_add b pos targetPos color psize drift phase =
     \<lparr>positions = positions b @ [vx pos, vy pos, vz pos],
      targetPositions = targetPositions b @ [vx targetPos, vy targetPos, vz targetPos],
      colors = colors b @ [cr color, cg color, cb color],
      sizes = sizes b @ [psize],
      drifts = drifts b @ [vx drift, vy drift, vz drift],
      phases = phases b @ [phase]\<rparr>"

text \<open>
  \<open>toData\<close> copies each array into a \<open>Float32Array\<close> of the same length; the model
  keeps the values (no rounding).
\<close>

type_synonym ParticleData = ParticleBuffer

definition Float32Array_from :: "real list \<Rightarrow> real list" where
  "Float32Array_from xs = xs"

definition toData :: "ParticleBuffer \<Rightarrow> ParticleData" where
  "toData b =
     \<lparr>positions = Float32Array_from (positions b),
      targetPositions = Float32Array_from (targetPositions b),
      colors = Float32Array_from (colors b),
      sizes = Float32Array_from (sizes b),
      drifts = Float32Array_from (drifts b),
      phases = Float32Array_from (phases b)\<rparr>"

section \<open>generateTree\<close>

record TreeGenParams =
  depth :: int
  branchLength :: real
  startPos :: Vector3

record TreeData =
  wood :: ParticleData
  blossoms :: ParticleData
  leafNodes :: "Vector3 list"

text \<open>
  The variables \<open>generateTree\<close> closes over and \<open>growBranch\<close> mutates, with the
  random source.
\<close>

record GenState =
  rng :: rng
  woodBuffer :: ParticleBuffer
  blossomBuffer :: ParticleBuffer
  leafNodesVar :: "Vector3 list"

definition getRandomSpacePos :: "rng \<Rightarrow> Vector3 \<times> rng" where
  "getRandomSpacePos g =
     (case randomRange 80 200 g of (r, g1) \<Rightarrow>
      case randomRange 0 (pi * 2) g1 of (theta, g2) \<Rightarrow>
      case randomRange (- 1) 1 g2 of (c, g3) \<Rightarrow>
        let phi = arccos c
        in (Vector3 (r * sin phi * cos theta) (r * sin phi * sin theta) (r * cos phi), g3))"

text \<open>One iteration of the wood loop (lines 96 to 132), for the index \<open>i\<close>.\<close>

definition woodParticle ::
  "Vector3 \<Rightarrow> Vector3 \<Rightarrow> real \<Rightarrow> bool \<Rightarrow> Vector3 \<Rightarrow> Vector3 \<Rightarrow> int \<Rightarrow> nat \<Rightarrow> GenState \<Rightarrow> GenState" where
  "woodParticle start endp radius isTrunk u v segmentParticles i st =
     (let t = real i / real_of_int segmentParticles;
          pos = lerpVectors start endp t
      in case Math_random (rng st) of (r1, g1) \<Rightarrow>
         case Math_random g1 of (r2, g2) \<Rightarrow>
         let theta = r1 * pi * 2;
             r = r2 * radius
         in case (if isTrunk \<and> t < 0.25
                  then (let flare = ((0.25 - t) * 6.0) powr 2.5
                        in case randomRange 0.8 2.0 g2 of (f, g') \<Rightarrow> (r + flare * f, g'))
                  else (r, g2)) of (r, g3) \<Rightarrow>
         case (if isTrunk then randomRange 0.9 1.2 g3 else randomRange 0.9 1.1 g3) of
           (roughness, g4) \<Rightarrow>
         let r = r * roughness;
             pos = Vector3_add pos (multiplyScalar u (cos theta * r));
             pos = Vector3_add pos (multiplyScalar v (sin theta * r))
         in case Math_random g4 of (colorMix, g5) \<Rightarrow>
         let woodColor = Color_lerp woodColorBase woodColorVar (colorMix ^ 3);
             sizeBase = (if isTrunk then 5.0 else 3.0)
         in case getRandomSpacePos g5 of (target, g6) \<Rightarrow>
            case randomRange (sizeBase * 0.9) (sizeBase * 1.5) g6 of (psize, g7) \<Rightarrow>
            case randomRange (- 0.05) 0.05 g7 of (dx, g8) \<Rightarrow>
            case randomRange (- 0.02) 0.02 g8 of (dy, g9) \<Rightarrow>
            case randomRange (- 0.05) 0.05 g9 of (dz, g10) \<Rightarrow>
            case Math_random g10 of (ph, g11) \<Rightarrow>
              st\<lparr>rng := g11,
                 woodBuffer :=
                   ParticleBuffer_add (woodBuffer st) pos target woodColor psize
                     (Vector3 dx dy dz) (ph * pi * 2)\<rparr>)"

text \<open>One iteration of the inner blossom loop (lines 205 to 253).\<close>

definition blossomParticle :: "Vector3 \<Rightarrow> real \<Rightarrow> real \<Rightarrow> real \<Rightarrow> GenState \<Rightarrow> GenState" where
  "blossomParticle clusterCenter spreadX spreadY spreadZ st =
     (case Math_random (rng st) of (u, g1) \<Rightarrow>
      case Math_random g1 of (v, g2) \<Rightarrow>
      let theta = 2 * pi * u;
          phi = arccos (2 * v - 1)
      in case Math_random g2 of (r3, g3) \<Rightarrow>
      let rRaw = root 3 r3;
          sinPhi = sin phi;
          x = rRaw * sinPhi * cos theta;
          y = rRaw * sinPhi * sin theta;
          z = rRaw * cos phi;
          p = Vector3 (vx clusterCenter + x * spreadX) (vy clusterCenter + y * spreadY)
                (vz clusterCenter + z * spreadZ);
          weepFactor = max 0 (\<bar>x\<bar> - 2) * 0.6
      in case Math_random g3 of (w, g4) \<Rightarrow>
         case (if w > 0.3
               then (case Math_random g4 of (a, g') \<Rightarrow>
                       (Vector3 (vx p) (vy p - a * (3.0 + weepFactor * 2.0)) (vz p), g'))
               else (p, g4)) of (p, g5) \<Rightarrow>
         case Math_random g5 of (ci, g6) \<Rightarrow>
         let colorIdx = \<lfloor>ci * real (length blossomColors)\<rfloor>;
             color = blossomColors ! nat colorIdx;
             sizeBase = 6.0
         in case randomRange 0 3.0 g6 of (sv, g7) \<Rightarrow>
         let sizeVar = (1.2 - rRaw) * sizeBase + sv
         in case randomRange (- 0.8) 0.8 g7 of (dx, g8) \<Rightarrow>
            case randomRange 0.2 1.6 g8 of (dy, g9) \<Rightarrow>
            case randomRange (- 0.8) 0.8 g9 of (dz, g10) \<Rightarrow>
            case getRandomSpacePos g10 of (target, g11) \<Rightarrow>
            case Math_random g11 of (ph, g12) \<Rightarrow>
              st\<lparr>rng := g12,
                 blossomBuffer :=
                   ParticleBuffer_add (blossomBuffer st) p target color sizeVar
                     (Vector3 dx dy dz) (ph * pi * 2)\<rparr>)"

text \<open>One iteration of the cluster loop (lines 188 to 254).\<close>

definition blossomCluster :: "Vector3 \<Rightarrow> GenState \<Rightarrow> GenState" where
  "blossomCluster endp st =
     (case randomRange (- 8) 8 (rng st) of (ox, g1) \<Rightarrow>
      case randomRange (- 4) 8 g1 of (oy, g2) \<Rightarrow>
      case randomRange (- 8) 8 g2 of (oz, g3) \<Rightarrow>
      let clusterOffset = Vector3 ox oy oz;
          clusterCenter = Vector3_add endp clusterOffset;
          particlesPerCluster = (90 :: nat)
      in case randomRange 6 10 g3 of (spreadX, g4) \<Rightarrow>
         case randomRange 4 7 g4 of (spreadY, g5) \<Rightarrow>
         case randomRange 6 10 g5 of (spreadZ, g6) \<Rightarrow>
           fold (\<lambda>k. blossomParticle clusterCenter spreadX spreadY spreadZ)
             [0..<particlesPerCluster] (st\<lparr>rng := g6\<rparr>))"

text \<open>The terminal branch (lines 183 to 254): record the leaf node, emit the clusters.\<close>

definition blossomsAt :: "Vector3 \<Rightarrow> GenState \<Rightarrow> GenState" where
  "blossomsAt endp st =
     (let st1 = st\<lparr>leafNodesVar := leafNodesVar st @ [endp]\<rparr>;
          clusters = (5 :: nat)
      in fold (\<lambda>c. blossomCluster endp) [0..<clusters] st1)"

text \<open>The direction of child \<open>i\<close> (lines 144 to 172).\<close>

definition childDirection ::
  "int \<Rightarrow> Vector3 \<Rightarrow> Vector3 \<Rightarrow> Vector3 \<Rightarrow> bool \<Rightarrow> int \<Rightarrow> int \<Rightarrow> nat \<Rightarrow> rng \<Rightarrow> Vector3 \<times> rng" where
  "childDirection depth0 direction tangent bitangent isTrunk currentDepth branchCount i g =
     (let angleStep = (pi * 2) / real_of_int branchCount
      in case randomRange (- 0.3) 0.3 g of (j, g1) \<Rightarrow>
      let azimuth = real i * angleStep + j
      in case (if isTrunk then randomRange 0.3 0.6 g1
               else if currentDepth > depth0 - 3 then randomRange 0.4 0.9 g1
               else randomRange 0.3 0.8 g1) of (spreadAngle, g2) \<Rightarrow>
      let x = cos azimuth * sin spreadAngle;
          y = sin azimuth * sin spreadAngle;
          z = cos spreadAngle;
          nextDir = normalize (Vector3_add (Vector3_add (multiplyScalar direction z)
                      (multiplyScalar tangent x)) (multiplyScalar bitangent y));
          nextDir = (if \<not> isTrunk then Vector3 (vx nextDir) (vy nextDir + 0.15) (vz nextDir)
                     else Vector3 (vx nextDir) (vy nextDir + 0.4) (vz nextDir))
      in (normalize nextDir, g2))"

text \<open>
  The number of children of a branch (line 138):
  \<open>isTrunk ? Math.floor(randomRange(3, 5)) : Math.floor(randomRange(2, 4))\<close>.
\<close>

definition drawBranchCount :: "bool \<Rightarrow> rng \<Rightarrow> int \<times> rng" where
  "drawBranchCount isTrunk g =
     (case (if isTrunk then randomRange 3 5 g else randomRange 2 4 g) of
        (x, g') \<Rightarrow> (\<lfloor>x\<rfloor>, g'))"

text \<open>
  \<open>growBranch\<close> (lines 74 to 256). The parameter \<open>depth0\<close> is the \<open>depth\<close> of the
  enclosing \<open>generateTree\<close> call, which the closure reads for \<open>isTrunk\<close>.
  \<open>Math.ceil\<close> and \<open>Math.floor\<close> yield integers; a loop \<open>for (i = 0; i < n; i++)\<close> runs
  over \<open>[0..<nat n]\<close>, which is empty when \<open>n \<le> 0\<close>.
\<close>

function growBranch ::
  "int \<Rightarrow> Vector3 \<Rightarrow> Vector3 \<Rightarrow> real \<Rightarrow> real \<Rightarrow> int \<Rightarrow> GenState \<Rightarrow> GenState" where
  "growBranch depth0 start direction len radius currentDepth st =
     (let endp = Vector3_add start (multiplyScalar direction len);
          isTrunk = (currentDepth = depth0);
          densityMultiplier = (if isTrunk then 32.0 else 12.0);
          segmentParticles = \<lceil>len * radius * densityMultiplier\<rceil>;
          axis = (if \<bar>vy direction\<bar> > 0.9 then Vector3 1 0 0 else Vector3 0 1 0);
          u = normalize (crossVectors direction axis);
          v = normalize (crossVectors direction u);
          st1 = fold (woodParticle start endp radius isTrunk u v segmentParticles)
                  [0..<nat segmentParticles] st
      in if currentDepth > 0 then
           (let drawn = drawBranchCount isTrunk (rng st1);
                branchCount = fst drawn;
                tangent = normalize (crossVectors direction axis);
                bitangent = normalize (crossVectors direction tangent);
                nextLength = len * 0.82;
                nextRadius = radius * 0.65
            in fold (\<lambda>i s.
                  growBranch depth0 endp
                    (fst (childDirection depth0 direction tangent bitangent isTrunk currentDepth
                            branchCount i (rng s)))
                    nextLength nextRadius (currentDepth - 1)
                    (s\<lparr>rng := snd (childDirection depth0 direction tangent bitangent isTrunk
                                     currentDepth branchCount i (rng s))\<rparr>))
                 [0..<nat branchCount] (st1\<lparr>rng := snd drawn\<rparr>))
         else blossomsAt endp st1)"
  by pat_completeness auto

termination
  by (relation "measure (\<lambda>(depth0, start, direction, len, radius, currentDepth, st). nat currentDepth)")
    auto

declare growBranch.simps [simp del]

definition generateTree :: "TreeGenParams \<Rightarrow> rng \<Rightarrow> TreeData \<times> rng" where
  "generateTree params g =
     (let st0 = \<lparr>rng = g, woodBuffer = ParticleBuffer_new, blossomBuffer = ParticleBuffer_new,
                 leafNodesVar = []\<rparr>;
          st = growBranch (depth params) (startPos params) (Vector3 0 1 0) (branchLength params)
                 10.0 (depth params) st0
      in (\<lparr>wood = toData (woodBuffer st), blossoms = toData (blossomBuffer st),
           leafNodes = leafNodesVar st\<rparr>, rng st))"

section \<open>Reading the particle arrays\<close>

text \<open>
  A particle as the six values one call of \<open>add\<close> receives, and the arrays that
  adding a list of particles in order to an empty buffer produces.
\<close>

record Particle =
  p_position :: Vector3
  p_target :: Vector3
  p_color :: Color
  p_size :: real
  p_drift :: Vector3
  p_phase :: real

definition addParticle :: "Particle \<Rightarrow> ParticleBuffer \<Rightarrow> ParticleBuffer" where
  "addParticle p b =
     ParticleBuffer_add b (p_position p) (p_target p) (p_color p) (p_size p) (p_drift p)
       (p_phase p)"

definition bufferOf :: "Particle list \<Rightarrow> ParticleBuffer" where
  "bufferOf ps = fold addParticle ps ParticleBuffer_new"

definition particleCount :: "ParticleData \<Rightarrow> nat" where
  "particleCount d = length (sizes d)"

definition vec3At :: "real list \<Rightarrow> nat \<Rightarrow> Vector3" where
  "vec3At xs i = Vector3 (xs ! (3 * i)) (xs ! (3 * i + 1)) (xs ! (3 * i + 2))"

definition colorAt :: "real list \<Rightarrow> nat \<Rightarrow> Color" where
  "colorAt xs i = Color (xs ! (3 * i)) (xs ! (3 * i + 1)) (xs ! (3 * i + 2))"

text \<open>Entry \<open>i\<close> of every array of \<open>d\<close> holds the attributes of the one particle \<open>p\<close>.\<close>

definition particleAt :: "ParticleData \<Rightarrow> nat \<Rightarrow> Particle" where
  "particleAt d i =
     \<lparr>p_position = vec3At (positions d) i, p_target = vec3At (targetPositions d) i,
      p_color = colorAt (colors d) i, p_size = sizes d ! i, p_drift = vec3At (drifts d) i,
      p_phase = phases d ! i\<rparr>"

section \<open>createPhotoData\<close>

datatype Euler = Euler real real real

record PhotoData =
  photoId :: nat
  position :: Vector3
  rotation :: Euler
  url :: string
  targetSpacePos :: Vector3
  targetSpaceRot :: Euler

text \<open>The decimal digits of a number, as a template literal prints it.\<close>

function decimal :: "nat \<Rightarrow> string" where
  "decimal n =
     (if n < 10 then [char_of (48 + n)] else decimal (n div 10) @ [char_of (48 + n mod 10)])"
  by pat_completeness auto

termination
  by (relation "measure (\<lambda>n. n)") auto

declare decimal.simps [simp del]

text \<open>
  \<open>xs.slice(0, e)\<close> for an integer \<open>e\<close>: a negative \<open>e\<close> counts from the end of the
  array, and the result never reaches past either end.
\<close>

definition slice0 :: "'a list \<Rightarrow> int \<Rightarrow> 'a list" where
  "slice0 xs e =
     (let n = int (length xs);
          k = (if e < 0 then max (n + e) 0 else min e n)
      in take (nat k) xs)"

text \<open>
  \<open>[...leafNodes].sort(() => 0.5 - Math.random())\<close> runs the sort of the JavaScript
  engine, whose algorithm the language leaves to the implementation. It is a
  parameter \<open>srt\<close> of the model: given the array and the random source, it returns
  the sorted copy and the source after the comparator's draws. What every engine
  guarantees is \<open>permuting_sort\<close>: the result holds the same elements, and the source
  moved on by the number of comparisons.
\<close>

type_synonym random_sort = "Vector3 list \<Rightarrow> rng \<Rightarrow> Vector3 list \<times> rng"

definition permuting_sort :: "random_sort \<Rightarrow> bool" where
  "permuting_sort srt =
     (\<forall>xs g. mset (fst (srt xs g)) = mset xs \<and> (\<exists>k. snd (srt xs g) = advance k g))"

text \<open>
  One such engine, for running the model: insertion sort, which asks the
  comparator \<open>0.5 - Math.random()\<close> whether the new element goes after the next one.
\<close>

fun insertRandom :: "Vector3 \<Rightarrow> Vector3 list \<Rightarrow> rng \<Rightarrow> Vector3 list \<times> rng" where
  "insertRandom x [] g = ([x], g)"
| "insertRandom x (y # ys) g =
     (case Math_random g of (r, g') \<Rightarrow>
        if 0.5 - r > 0 then (case insertRandom x ys g' of (zs, g'') \<Rightarrow> (y # zs, g''))
        else (x # y # ys, g'))"

fun insertionSortRandom :: random_sort where
  "insertionSortRandom [] g = ([], g)"
| "insertionSortRandom (x # xs) g =
     (case insertionSortRandom xs g of (ys, g') \<Rightarrow> insertRandom x ys g')"

text \<open>The body of \<open>forEach\<close> (lines 275 to 292) for one node and its index.\<close>

definition photoEntry :: "Vector3 \<Rightarrow> nat \<Rightarrow> rng \<Rightarrow> PhotoData \<times> rng" where
  "photoEntry node index g =
     (case randomRange 100 200 g of (r, g1) \<Rightarrow>
      case randomRange 0 (pi * 2) g1 of (theta, g2) \<Rightarrow>
      case randomRange (- 1) 1 g2 of (c, g3) \<Rightarrow>
      let phi = arccos c
      in case randomRange (- 0.15) 0.15 g3 of (rx, g4) \<Rightarrow>
         case randomRange 0 (pi * 2) g4 of (ry, g5) \<Rightarrow>
         case randomRange (- 0.15) 0.15 g5 of (rz, g6) \<Rightarrow>
         case Math_random g6 of (tx, g7) \<Rightarrow>
         case Math_random g7 of (ty, g8) \<Rightarrow>
         case Math_random g8 of (tz, g9) \<Rightarrow>
           (\<lparr>photoId = index,
             position = Vector3_add node (Vector3 0 (- 10.0) 0),
             rotation = Euler rx ry rz,
             url = ''https://picsum.photos/seed/'' @ decimal (index + 420) @ ''/300/400.jpg'',
             targetSpacePos =
               Vector3 (r * sin phi * cos theta) (r * sin phi * sin theta) (r * cos phi),
             targetSpaceRot = Euler (tx * pi) (ty * pi) (tz * pi)\<rparr>, g9))"

fun photoEntries :: "Vector3 list \<Rightarrow> nat \<Rightarrow> rng \<Rightarrow> PhotoData list \<times> rng" where
  "photoEntries [] index g = ([], g)"
| "photoEntries (node # nodes) index g =
     (case photoEntry node index g of (photo, g') \<Rightarrow>
      case photoEntries nodes (Suc index) g' of (photos, g'') \<Rightarrow> (photo # photos, g''))"

definition createPhotoData ::
  "random_sort \<Rightarrow> Vector3 list \<Rightarrow> int \<Rightarrow> rng \<Rightarrow> PhotoData list \<times> rng" where
  "createPhotoData srt leafNodes0 count0 g =
     (if length leafNodes0 = 0 then ([], g)
      else
        let safeCount = min count0 (int (length leafNodes0))
        in case srt leafNodes0 g of (shuffled, g1) \<Rightarrow>
           let chosenNodes = slice0 shuffled safeCount
           in photoEntries chosenNodes 0 g1)"

section \<open>Double-precision numbers\<close>

text \<open>
  A JavaScript number is an IEEE 754 binary64 value: a real number with a significand of
  53 bits, one of the two infinities, or NaN. The two zeros are identified: they differ
  only under division, and neither the generator nor the scene divides by a zero.

  \<open>rnd p emin\<close> rounds a real to the nearest number with \<open>p\<close> significant bits whose
  exponent is at least \<open>emin\<close> (below it the spacing stays that of the subnormal numbers),
  a tie going to the even significand. \<open>round_to\<close> adds the overflow to an infinity: a
  result that reaches \<open>2 ^ emax\<close> is infinite. \<open>fl\<close> is this rounding for doubles; a decimal
  literal of the source such as \<open>0.82\<close> denotes \<open>fl 0.82\<close>. \<open>fround\<close>, the rounding to 32-bit
  floats, is what storing into a \<open>Float32Array\<close> does.
\<close>

datatype jsnum = Num real | PosInf | NegInf | NaN

definition round_even :: "real \<Rightarrow> int" where
  "round_even r =
     (let f = \<lfloor>r\<rfloor>; d = r - of_int f
      in if d < 1 / 2 then f else if 1 / 2 < d then f + 1 else if even f then f else f + 1)"

definition expo :: "int \<Rightarrow> real \<Rightarrow> int" where
  "expo emin x = max \<lfloor>log 2 \<bar>x\<bar>\<rfloor> emin"

definition ulp :: "nat \<Rightarrow> int \<Rightarrow> real \<Rightarrow> real" where
  "ulp p emin x = 2 powi (expo emin x - (int p - 1))"

definition rnd :: "nat \<Rightarrow> int \<Rightarrow> real \<Rightarrow> real" where
  "rnd p emin x = (if x = 0 then 0 else of_int (round_even (x / ulp p emin x)) * ulp p emin x)"

definition round_to :: "nat \<Rightarrow> int \<Rightarrow> nat \<Rightarrow> real \<Rightarrow> jsnum" where
  "round_to p emin emax x =
     (let r = rnd p emin x
      in if 2 ^ emax \<le> r then PosInf else if r \<le> - (2 ^ emax) then NegInf else Num r)"

definition fl :: "real \<Rightarrow> jsnum" where
  "fl = round_to 53 (- 1022) 1024"

definition is_double :: "real \<Rightarrow> bool" where
  "is_double x = (rnd 53 (- 1022) x = x \<and> \<bar>x\<bar> < 2 ^ 1024)"

abbreviation (input) rd :: "real \<Rightarrow> real" where
  "rd \<equiv> rnd 53 (- 1022)"

text \<open>
  The arithmetic operators and comparisons of the language on these values. Each operator
  computes the exact result and rounds it once; the special values follow IEEE 754.
\<close>

definition jneg :: "jsnum \<Rightarrow> jsnum" where
  "jneg a = (case a of Num x \<Rightarrow> Num (- x) | PosInf \<Rightarrow> NegInf | NegInf \<Rightarrow> PosInf | NaN \<Rightarrow> NaN)"

fun jadd :: "jsnum \<Rightarrow> jsnum \<Rightarrow> jsnum" where
  "jadd (Num x) (Num y) = fl (x + y)"
| "jadd NaN b = NaN"
| "jadd a NaN = NaN"
| "jadd PosInf NegInf = NaN"
| "jadd NegInf PosInf = NaN"
| "jadd PosInf b = PosInf"
| "jadd NegInf b = NegInf"
| "jadd a PosInf = PosInf"
| "jadd a NegInf = NegInf"

definition jsub :: "jsnum \<Rightarrow> jsnum \<Rightarrow> jsnum" where
  "jsub a b = jadd a (jneg b)"

definition jsign :: "jsnum \<Rightarrow> int" where
  "jsign a = (case a of Num x \<Rightarrow> (if x = 0 then 0 else if 0 < x then 1 else - 1)
                | PosInf \<Rightarrow> 1 | NegInf \<Rightarrow> - 1 | NaN \<Rightarrow> 0)"

fun jmul :: "jsnum \<Rightarrow> jsnum \<Rightarrow> jsnum" where
  "jmul (Num x) (Num y) = fl (x * y)"
| "jmul NaN b = NaN"
| "jmul a NaN = NaN"
| "jmul a b =
     (if jsign a * jsign b = 0 then NaN else if 0 < jsign a * jsign b then PosInf else NegInf)"

fun jdiv :: "jsnum \<Rightarrow> jsnum \<Rightarrow> jsnum" where
  "jdiv NaN b = NaN"
| "jdiv a NaN = NaN"
| "jdiv (Num x) (Num y) =
     (if y = 0 then (if x = 0 then NaN else if 0 < x then PosInf else NegInf) else fl (x / y))"
| "jdiv (Num x) b = Num 0"
| "jdiv a (Num y) = (if 0 \<le> y then a else jneg a)"
| "jdiv a b = NaN"

fun jlt :: "jsnum \<Rightarrow> jsnum \<Rightarrow> bool" where
  "jlt NaN b = False"
| "jlt a NaN = False"
| "jlt (Num x) (Num y) = (x < y)"
| "jlt PosInf b = False"
| "jlt a NegInf = False"
| "jlt a b = True"

definition jgt :: "jsnum \<Rightarrow> jsnum \<Rightarrow> bool" where
  "jgt a b = jlt b a"




definition Math_floor :: "jsnum \<Rightarrow> jsnum" where
  "Math_floor a = (case a of Num x \<Rightarrow> Num (of_int \<lfloor>x\<rfloor>) | PosInf \<Rightarrow> PosInf | NegInf \<Rightarrow> NegInf | NaN \<Rightarrow> NaN)"

definition Math_abs :: "jsnum \<Rightarrow> jsnum" where
  "Math_abs a = (case a of Num x \<Rightarrow> Num \<bar>x\<bar> | PosInf \<Rightarrow> PosInf | NegInf \<Rightarrow> PosInf | NaN \<Rightarrow> NaN)"

definition Math_max :: "jsnum \<Rightarrow> jsnum \<Rightarrow> jsnum" where
  "Math_max a b = (if a = NaN \<or> b = NaN then NaN else if jlt a b then b else a)"

definition Math_PI :: jsnum where
  "Math_PI = fl pi"

record JSMath =
  Math_sin :: "jsnum \<Rightarrow> jsnum"
  Math_cos :: "jsnum \<Rightarrow> jsnum"
  Math_acos :: "jsnum \<Rightarrow> jsnum"
  Math_sqrt :: "jsnum \<Rightarrow> jsnum"
  Math_cbrt :: "jsnum \<Rightarrow> jsnum"
  Math_pow :: "jsnum \<Rightarrow> jsnum \<Rightarrow> jsnum"

definition fround :: "jsnum \<Rightarrow> jsnum" where
  "fround a = (case a of Num x \<Rightarrow> round_to 24 (- 126) 128 x | PosInf \<Rightarrow> PosInf | NegInf \<Rightarrow> NegInf | NaN \<Rightarrow> NaN)"

section \<open>generateTree in double precision\<close>

text \<open>
  The same source, \<open>generateTree\<close> with the class and the helpers it uses, line by line
  over doubles. \<open>depth\<close> and \<open>branchLength\<close> are numbers, as their TypeScript type says.
\<close>

datatype Vector3_f64 = Vector3_f64 (fx: jsnum) (fy: jsnum) (fz: jsnum)

datatype Color_f64 = Color_f64 (fr: jsnum) (fg: jsnum) (fb: jsnum)

definition add_f64 :: "Vector3_f64 \<Rightarrow> Vector3_f64 \<Rightarrow> Vector3_f64" where
  "add_f64 a b = Vector3_f64 (jadd (fx a) (fx b)) (jadd (fy a) (fy b)) (jadd (fz a) (fz b))"

definition multiplyScalar_f64 :: "Vector3_f64 \<Rightarrow> jsnum \<Rightarrow> Vector3_f64" where
  "multiplyScalar_f64 a s = Vector3_f64 (jmul (fx a) s) (jmul (fy a) s) (jmul (fz a) s)"




definition lerpVectors_f64 :: "Vector3_f64 \<Rightarrow> Vector3_f64 \<Rightarrow> jsnum \<Rightarrow> Vector3_f64" where
  "lerpVectors_f64 a b alpha =
     Vector3_f64 (jadd (fx a) (jmul (jsub (fx b) (fx a)) alpha))
       (jadd (fy a) (jmul (jsub (fy b) (fy a)) alpha))
       (jadd (fz a) (jmul (jsub (fz b) (fz a)) alpha))"

definition Color_lerp_f64 :: "Color_f64 \<Rightarrow> Color_f64 \<Rightarrow> jsnum \<Rightarrow> Color_f64" where
  "Color_lerp_f64 a b alpha =
     Color_f64 (jadd (fr a) (jmul (jsub (fr b) (fr a)) alpha))
       (jadd (fg a) (jmul (jsub (fg b) (fg a)) alpha))
       (jadd (fb a) (jmul (jsub (fb b) (fb a)) alpha))"

text \<open>
  A colour written \<open>#rrggbb\<close>, by its three bytes, as above; no property below reads a
  colour component.
\<close>

definition hexColor_f64 :: "nat \<Rightarrow> nat \<Rightarrow> nat \<Rightarrow> Color_f64" where
  "hexColor_f64 r g b = Color_f64 (fl (real r / 255)) (fl (real g / 255)) (fl (real b / 255))"

definition woodColorBase_f64 :: Color_f64 where
  "woodColorBase_f64 = hexColor_f64 0x1a 0x0b 0x08"

definition woodColorVar_f64 :: Color_f64 where
  "woodColorVar_f64 = hexColor_f64 0x3e 0x2b 0x24"

definition blossomColors_f64 :: "Color_f64 list" where
  "blossomColors_f64 =
     [hexColor_f64 0xff 0xb7 0xc5, hexColor_f64 0xff 0xc0 0xcb, hexColor_f64 0xff 0xe4 0xe1,
      hexColor_f64 0xff 0xff 0xff, hexColor_f64 0xff 0x9e 0xb5]"

text \<open>
  The random source is the stream of outcomes, as above. The contract of \<open>Math.random\<close>
  is now that every outcome is a double in \<open>[0, 1)\<close>.
\<close>

definition valid_rng_f64 :: "rng \<Rightarrow> bool" where
  "valid_rng_f64 g = (\<forall>n. is_double (g n) \<and> 0 \<le> g n \<and> g n < 1)"

definition Math_random_f64 :: "rng \<Rightarrow> jsnum \<times> rng" where
  "Math_random_f64 g = (Num (g 0), advance 1 g)"

definition randomRange_f64 :: "jsnum \<Rightarrow> jsnum \<Rightarrow> rng \<Rightarrow> jsnum \<times> rng" where
  "randomRange_f64 lo hi g =
     (case Math_random_f64 g of (x, g') \<Rightarrow> (jadd (jmul x (jsub hi lo)) lo, g'))"

record ParticleBuffer_f64 =
  positions_f64 :: "jsnum list"
  targetPositions_f64 :: "jsnum list"
  colors_f64 :: "jsnum list"
  sizes_f64 :: "jsnum list"
  drifts_f64 :: "jsnum list"
  phases_f64 :: "jsnum list"


definition ParticleBuffer_add_f64 ::
  "ParticleBuffer_f64 \<Rightarrow> Vector3_f64 \<Rightarrow> Vector3_f64 \<Rightarrow> Color_f64 \<Rightarrow> jsnum \<Rightarrow> Vector3_f64 \<Rightarrow> jsnum
     \<Rightarrow> ParticleBuffer_f64" where
  "ParticleBuffer_add_f64 b pos targetPos color psize drift phase =
     \<lparr>positions_f64 = positions_f64 b @ [fx pos, fy pos, fz pos],
      targetPositions_f64 = targetPositions_f64 b @ [fx targetPos, fy targetPos, fz targetPos],
      colors_f64 = colors_f64 b @ [fr color, fg color, fb color],
      sizes_f64 = sizes_f64 b @ [psize],
      drifts_f64 = drifts_f64 b @ [fx drift, fy drift, fz drift],
      phases_f64 = phases_f64 b @ [phase]\<rparr>"

text \<open>\<open>toData\<close> stores every value into a \<open>Float32Array\<close>, which rounds it to a 32-bit float.\<close>

definition Float32Array_from_f64 :: "jsnum list \<Rightarrow> jsnum list" where
  "Float32Array_from_f64 xs = map fround xs"

definition toData_f64 :: "ParticleBuffer_f64 \<Rightarrow> ParticleBuffer_f64" where
  "toData_f64 b =
     \<lparr>positions_f64 = Float32Array_from_f64 (positions_f64 b),
      targetPositions_f64 = Float32Array_from_f64 (targetPositions_f64 b),
      colors_f64 = Float32Array_from_f64 (colors_f64 b),
      sizes_f64 = Float32Array_from_f64 (sizes_f64 b),
      drifts_f64 = Float32Array_from_f64 (drifts_f64 b),
      phases_f64 = Float32Array_from_f64 (phases_f64 b)\<rparr>"




record GenState_f64 =
  rng_f64 :: rng
  woodBuffer_f64 :: ParticleBuffer_f64
  blossomBuffer_f64 :: ParticleBuffer_f64
  leafNodesVar_f64 :: "Vector3_f64 list"

definition getRandomSpacePos_f64 :: "JSMath \<Rightarrow> rng \<Rightarrow> Vector3_f64 \<times> rng" where
  "getRandomSpacePos_f64 M g =
     (case randomRange_f64 (Num 80) (Num 200) g of (r, g1) \<Rightarrow>
      case randomRange_f64 (Num 0) (jmul Math_PI (Num 2)) g1 of (theta, g2) \<Rightarrow>
      case randomRange_f64 (Num (- 1)) (Num 1) g2 of (c, g3) \<Rightarrow>
        let phi = Math_acos M c
        in (Vector3_f64 (jmul (jmul r (Math_sin M phi)) (Math_cos M theta))
              (jmul (jmul r (Math_sin M phi)) (Math_sin M theta))
              (jmul r (Math_cos M phi)), g3))"

text \<open>One iteration of the wood loop (lines 96 to 132), for the value \<open>i\<close> of the counter.\<close>

definition woodParticle_f64 ::
  "JSMath \<Rightarrow> Vector3_f64 \<Rightarrow> Vector3_f64 \<Rightarrow> jsnum \<Rightarrow> bool \<Rightarrow> Vector3_f64 \<Rightarrow> Vector3_f64 \<Rightarrow> jsnum \<Rightarrow> jsnum
     \<Rightarrow> GenState_f64 \<Rightarrow> GenState_f64" where
  "woodParticle_f64 M start endp radius isTrunk u v segmentParticles i st =
     (let t = jdiv i segmentParticles;
          pos = lerpVectors_f64 start endp t
      in case Math_random_f64 (rng_f64 st) of (r1, g1) \<Rightarrow>
         case Math_random_f64 g1 of (r2, g2) \<Rightarrow>
         let theta = jmul (jmul r1 Math_PI) (Num 2);
             r = jmul r2 radius
         in case (if isTrunk \<and> jlt t (fl 0.25)
                  then (let flare = Math_pow M (jmul (jsub (fl 0.25) t) (Num 6.0)) (fl 2.5)
                        in case randomRange_f64 (fl 0.8) (Num 2.0) g2 of
                             (f, g') \<Rightarrow> (jadd r (jmul flare f), g'))
                  else (r, g2)) of (r, g3) \<Rightarrow>
         case (if isTrunk then randomRange_f64 (fl 0.9) (fl 1.2) g3
               else randomRange_f64 (fl 0.9) (fl 1.1) g3) of
           (roughness, g4) \<Rightarrow>
         let r = jmul r roughness;
             pos = add_f64 pos (multiplyScalar_f64 u (jmul (Math_cos M theta) r));
             pos = add_f64 pos (multiplyScalar_f64 v (jmul (Math_sin M theta) r))
         in case Math_random_f64 g4 of (colorMix, g5) \<Rightarrow>
         let woodColor = Color_lerp_f64 woodColorBase_f64 woodColorVar_f64
                           (Math_pow M colorMix (Num 3.0));
             sizeBase = (if isTrunk then Num 5.0 else Num 3.0)
         in case getRandomSpacePos_f64 M g5 of (target, g6) \<Rightarrow>
            case randomRange_f64 (jmul sizeBase (fl 0.9)) (jmul sizeBase (fl 1.5)) g6 of
              (psize, g7) \<Rightarrow>
            case randomRange_f64 (fl (- 0.05)) (fl 0.05) g7 of (dx, g8) \<Rightarrow>
            case randomRange_f64 (fl (- 0.02)) (fl 0.02) g8 of (dy, g9) \<Rightarrow>
            case randomRange_f64 (fl (- 0.05)) (fl 0.05) g9 of (dz, g10) \<Rightarrow>
            case Math_random_f64 g10 of (ph, g11) \<Rightarrow>
              st\<lparr>rng_f64 := g11,
                 woodBuffer_f64 :=
                   ParticleBuffer_add_f64 (woodBuffer_f64 st) pos target woodColor psize
                     (Vector3_f64 dx dy dz) (jmul (jmul ph Math_PI) (Num 2))\<rparr>)"

text \<open>
  The position an array index denotes. \<open>colorIdx\<close> is one of the five positions for every
  outcome of \<open>Math.random\<close> in \<open>[0, 1)\<close>; the model is not read outside that contract.
\<close>

fun index_of :: "jsnum \<Rightarrow> nat" where
  "index_of (Num k) = nat \<lfloor>k\<rfloor>"

text \<open>One iteration of the inner blossom loop (lines 205 to 253).\<close>

definition blossomParticle_f64 ::
  "JSMath \<Rightarrow> Vector3_f64 \<Rightarrow> jsnum \<Rightarrow> jsnum \<Rightarrow> jsnum \<Rightarrow> GenState_f64 \<Rightarrow> GenState_f64" where
  "blossomParticle_f64 M clusterCenter spreadX spreadY spreadZ st =
     (case Math_random_f64 (rng_f64 st) of (u, g1) \<Rightarrow>
      case Math_random_f64 g1 of (v, g2) \<Rightarrow>
      let theta = jmul (jmul (Num 2) Math_PI) u;
          phi = Math_acos M (jsub (jmul (Num 2) v) (Num 1))
      in case Math_random_f64 g2 of (r3, g3) \<Rightarrow>
      let rRaw = Math_cbrt M r3;
          sinPhi = Math_sin M phi;
          x = jmul (jmul rRaw sinPhi) (Math_cos M theta);
          y = jmul (jmul rRaw sinPhi) (Math_sin M theta);
          z = jmul rRaw (Math_cos M phi);
          p = Vector3_f64 (jadd (fx clusterCenter) (jmul x spreadX))
                (jadd (fy clusterCenter) (jmul y spreadY))
                (jadd (fz clusterCenter) (jmul z spreadZ));
          weepFactor = jmul (Math_max (Num 0) (jsub (Math_abs x) (Num 2))) (fl 0.6)
      in case Math_random_f64 g3 of (w, g4) \<Rightarrow>
         case (if jgt w (fl 0.3)
               then (case Math_random_f64 g4 of (a, g') \<Rightarrow>
                       (Vector3_f64 (fx p)
                          (jsub (fy p) (jmul a (jadd (Num 3.0) (jmul weepFactor (Num 2.0)))))
                          (fz p), g'))
               else (p, g4)) of (p, g5) \<Rightarrow>
         case Math_random_f64 g5 of (ci, g6) \<Rightarrow>
         let colorIdx = Math_floor (jmul ci (Num (real (length blossomColors_f64))));
             color = blossomColors_f64 ! index_of colorIdx;
             sizeBase = Num 6.0
         in case randomRange_f64 (Num 0) (Num 3.0) g6 of (sv, g7) \<Rightarrow>
         let sizeVar = jadd (jmul (jsub (fl 1.2) rRaw) sizeBase) sv
         in case randomRange_f64 (fl (- 0.8)) (fl 0.8) g7 of (dx, g8) \<Rightarrow>
            case randomRange_f64 (fl 0.2) (fl 1.6) g8 of (dy, g9) \<Rightarrow>
            case randomRange_f64 (fl (- 0.8)) (fl 0.8) g9 of (dz, g10) \<Rightarrow>
            case getRandomSpacePos_f64 M g10 of (target, g11) \<Rightarrow>
            case Math_random_f64 g11 of (ph, g12) \<Rightarrow>
              st\<lparr>rng_f64 := g12,
                 blossomBuffer_f64 :=
                   ParticleBuffer_add_f64 (blossomBuffer_f64 st) p target color sizeVar
                     (Vector3_f64 dx dy dz) (jmul (jmul ph Math_PI) (Num 2))\<rparr>)"

text \<open>
  The cluster loop (lines 188 to 254) and the terminal branch (lines 183 to 254). Their
  loops are bounded by the constants 90 and 5, and their bodies do not read the counter.
\<close>

definition blossomCluster_f64 :: "JSMath \<Rightarrow> Vector3_f64 \<Rightarrow> GenState_f64 \<Rightarrow> GenState_f64" where
  "blossomCluster_f64 M endp st =
     (case randomRange_f64 (Num (- 8)) (Num 8) (rng_f64 st) of (ox, g1) \<Rightarrow>
      case randomRange_f64 (Num (- 4)) (Num 8) g1 of (oy, g2) \<Rightarrow>
      case randomRange_f64 (Num (- 8)) (Num 8) g2 of (oz, g3) \<Rightarrow>
      let clusterOffset = Vector3_f64 ox oy oz;
          clusterCenter = add_f64 endp clusterOffset;
          particlesPerCluster = (90 :: nat)
      in case randomRange_f64 (Num 6) (Num 10) g3 of (spreadX, g4) \<Rightarrow>
         case randomRange_f64 (Num 4) (Num 7) g4 of (spreadY, g5) \<Rightarrow>
         case randomRange_f64 (Num 6) (Num 10) g5 of (spreadZ, g6) \<Rightarrow>
           fold (\<lambda>k. blossomParticle_f64 M clusterCenter spreadX spreadY spreadZ)
             [0..<particlesPerCluster] (st\<lparr>rng_f64 := g6\<rparr>))"

definition blossomsAt_f64 :: "JSMath \<Rightarrow> Vector3_f64 \<Rightarrow> GenState_f64 \<Rightarrow> GenState_f64" where
  "blossomsAt_f64 M endp st =
     (let st1 = st\<lparr>leafNodesVar_f64 := leafNodesVar_f64 st @ [endp]\<rparr>;
          clusters = (5 :: nat)
      in fold (\<lambda>c. blossomCluster_f64 M endp) [0..<clusters] st1)"







section \<open>Scene\<close>

text \<open>
  \<open>THREE.MathUtils.lerp(x, y, t)\<close> is \<open>(1 - t) * x + t * y\<close> in three.js, computed in
  doubles.
\<close>

definition MathUtils_lerp :: "jsnum \<Rightarrow> jsnum \<Rightarrow> jsnum \<Rightarrow> jsnum" where
  "MathUtils_lerp x y t = jadd (jmul (jsub (Num 1) t) x) (jmul t y)"

text \<open>
  The expansion update of one frame (Scene.tsx, lines 40 to 44): the target from
  the gesture and the value \<open>e\<close> of \<open>expansionRef.current\<close>, then the new value.
\<close>

definition targetExpansion :: "string \<Rightarrow> jsnum \<Rightarrow> jsnum" where
  "targetExpansion gesture e =
     (let t = e;
          t = (if gesture = ''FIST'' then Num 0 else t);
          t = (if gesture = ''OPEN_HAND'' then Num 1 else t)
      in t)"

definition expansionFrame :: "string \<Rightarrow> jsnum \<Rightarrow> jsnum \<Rightarrow> jsnum" where
  "expansionFrame gesture delta e =
     MathUtils_lerp e (targetExpansion gesture e) (jmul delta (Num 2.0))"

text \<open>
  A run of frames, each with its gesture and its \<open>delta\<close>, from the initial value
  of \<open>expansionRef\<close>, which is 0.
\<close>

definition runFrames :: "(string \<times> jsnum) list \<Rightarrow> jsnum" where
  "runFrames frames = fold (\<lambda>(gesture, delta) e. expansionFrame gesture delta e) frames (Num 0)"

definition expansionAfter :: "jsnum \<Rightarrow> nat \<Rightarrow> jsnum" where
  "expansionAfter delta n = runFrames (replicate n (''OPEN_HAND'', delta))"

text \<open>
  The target as the specification words it, for comparison with the code: 0 on
  the collapse label, 1 on the expand label, otherwise the target of the frame
  before (0 before the first frame).
\<close>

definition heldTarget :: "string list \<Rightarrow> jsnum" where
  "heldTarget gestures =
     fold (\<lambda>gesture t. if gesture = ''FIST'' then Num 0 else if gesture = ''OPEN_HAND'' then Num 1 else t)
       gestures (Num 0)"

text \<open>
  The \<open>useMemo\<close> of the scene (Scene.tsx, lines 29 to 34). The object literal
  evaluates \<open>treeData\<close> first, then \<open>photos\<close>, whose argument calls \<open>generateTree\<close> again.
\<close>

definition sceneParams :: TreeGenParams where
  "sceneParams = \<lparr>depth = 6, branchLength = 35, startPos = Vector3 0 (- 60) 0\<rparr>"

definition Scene_useMemo :: "random_sort \<Rightarrow> rng \<Rightarrow> (TreeData \<times> PhotoData list) \<times> rng" where
  "Scene_useMemo srt g =
     (case generateTree sceneParams g of (treeData, g1) \<Rightarrow>
      case generateTree sceneParams g1 of (tree2, g2) \<Rightarrow>
      case createPhotoData srt (leafNodes tree2) 16 g2 of (photos, g3) \<Rightarrow>
        ((treeData, photos), g3))"

section \<open>The random source: basic facts\<close>

lemma snd_Math_random [simp]: "snd (Math_random g) = advance 1 g"
  by (simp add: Math_random_def)

lemma fst_Math_random [simp]: "fst (Math_random g) = g 0"
  by (simp add: Math_random_def)

lemma snd_randomRange [simp]: "snd (randomRange lo hi g) = advance 1 g"
  by (simp add: randomRange_def split_def)

lemma fst_randomRange [simp]: "fst (randomRange lo hi g) = g 0 * (hi - lo) + lo"
  by (simp add: randomRange_def split_def)

lemma advance_advance [simp]: "advance j (advance k g) = advance (k + j) g"
  by (simp add: advance_def fun_eq_iff add_ac)

lemma advance_0 [simp]: "advance 0 g = g"
  by (simp add: advance_def)

lemma valid_rng_advance [simp]: "valid_rng g \<Longrightarrow> valid_rng (advance k g)"
  by (simp add: valid_rng_def advance_def)

lemma valid_rng_const: "0 \<le> c \<Longrightarrow> c < 1 \<Longrightarrow> valid_rng (\<lambda>_. c)"
  by (simp add: valid_rng_def)

lemma snd_getRandomSpacePos [simp]: "snd (getRandomSpacePos g) = advance 3 g"
  by (simp add: getRandomSpacePos_def split_def Let_def numeral_3_eq_3)

lemma snd_childDirection [simp]:
  "snd (childDirection depth0 direction tangent bitangent isTrunk currentDepth branchCount i g)
     = advance 2 g"
  by (simp add: childDirection_def split_def Let_def numeral_2_eq_2)

lemma fst_drawBranchCount:
  "fst (drawBranchCount isTrunk g) = (if isTrunk then \<lfloor>g 0 * 2 + 3\<rfloor> else \<lfloor>g 0 * 2 + 2\<rfloor>)"
  by (simp add: drawBranchCount_def split_def)

lemma snd_drawBranchCount [simp]: "snd (drawBranchCount isTrunk g) = advance 1 g"
  by (simp add: drawBranchCount_def split_def)

text \<open>
  Under the contract of \<open>Math.random\<close> the partial operations of the source stay
  inside their domain: the index into \<open>blossomColors\<close> is one of its five positions,
  and the argument of \<open>Math.acos\<close> lies in \<open>[-1, 1)\<close>.
\<close>

lemma colorIdx_in_range:
  assumes "valid_rng g"
  shows "0 \<le> \<lfloor>fst (Math_random g) * real (length blossomColors)\<rfloor>
       \<and> nat \<lfloor>fst (Math_random g) * real (length blossomColors)\<rfloor> < length blossomColors"
proof -
  from assms have r: "0 \<le> g 0" "g 0 < 1"
    by (simp_all add: valid_rng_def)
  then have "\<lfloor>g 0 * 5\<rfloor> < 5" and "0 \<le> \<lfloor>g 0 * 5\<rfloor>"
    by (simp_all add: floor_less_iff)
  then have "nat \<lfloor>g 0 * 5\<rfloor> < 5"
    by linarith
  with r show ?thesis
    by (simp add: blossomColors_def)
qed

lemma acos_argument_in_range:
  assumes "valid_rng g"
  shows "- 1 \<le> fst (randomRange (- 1) 1 g) \<and> fst (randomRange (- 1) 1 g) < 1"
proof -
  from assms have "0 \<le> g 0" "g 0 < 1"
    by (simp_all add: valid_rng_def)
  then show ?thesis by simp
qed

section \<open>Loops and emissions\<close>

lemma fold_invariant:
  assumes "P s" and "\<And>x s. x \<in> set xs \<Longrightarrow> P s \<Longrightarrow> P (f x s)"
  shows "P (fold f xs s)"
  using assms by (induction xs arbitrary: s) auto

lemma fold_counts:
  assumes "\<And>x s. m (f x s) = m s + (c :: nat)"
  shows "m (fold f xs s) = m s + c * length xs"
  by (induction xs arbitrary: s) (simp_all add: assms)

lemma fold_unchanged:
  assumes "\<And>x s. m (f x s) = m s"
  shows "m (fold f xs s) = m s"
  by (induction xs arbitrary: s) (simp_all add: assms)

subsection \<open>What one emission changes\<close>

lemma woodParticle_rng:
  "\<exists>k. rng (woodParticle start endp radius isTrunk u v n i st) = advance k (rng st)"
  by (auto simp add: woodParticle_def split_def Let_def)

lemma woodParticle_blossomBuffer [simp]:
  "blossomBuffer (woodParticle start endp radius isTrunk u v n i st) = blossomBuffer st"
  by (simp add: woodParticle_def split_def Let_def)

lemma woodParticle_leafNodesVar [simp]:
  "leafNodesVar (woodParticle start endp radius isTrunk u v n i st) = leafNodesVar st"
  by (simp add: woodParticle_def split_def Let_def)

lemma woodParticle_woodBuffer:
  "\<exists>k pos col sz dr ph.
     woodBuffer (woodParticle start endp radius isTrunk u v n i st) =
       ParticleBuffer_add (woodBuffer st) pos (fst (getRandomSpacePos (advance k (rng st))))
         col sz dr ph"
  apply (simp add: woodParticle_def split_def Let_def)
  apply (intro conjI impI; (intro exI, rule refl))
  done

lemma blossomParticle_rng:
  "\<exists>k. rng (blossomParticle c sx sy sz st) = advance k (rng st)"
  by (auto simp add: blossomParticle_def split_def Let_def)

lemma blossomParticle_woodBuffer [simp]:
  "woodBuffer (blossomParticle c sx sy sz st) = woodBuffer st"
  by (simp add: blossomParticle_def split_def Let_def)

lemma blossomParticle_leafNodesVar [simp]:
  "leafNodesVar (blossomParticle c sx sy sz st) = leafNodesVar st"
  by (simp add: blossomParticle_def split_def Let_def)

lemma blossomParticle_blossomBuffer:
  "\<exists>k pos col sz dr ph.
     blossomBuffer (blossomParticle c sx sy sz' st) =
       ParticleBuffer_add (blossomBuffer st) pos (fst (getRandomSpacePos (advance k (rng st))))
         col sz dr ph"
  apply (simp add: blossomParticle_def split_def Let_def)
  apply (intro conjI impI; (intro exI, rule refl))
  done

lemma sizes_add [simp]:
  "length (sizes (ParticleBuffer_add b pos tgt col sz dr ph)) = Suc (length (sizes b))"
  by (simp add: ParticleBuffer_add_def)

lemma woodParticle_count:
  "length (sizes (woodBuffer (woodParticle start endp radius isTrunk u v n i st)))
     = length (sizes (woodBuffer st)) + 1"
  using woodParticle_woodBuffer [of start endp radius isTrunk u v n i st] by auto

lemma blossomParticle_count:
  "length (sizes (blossomBuffer (blossomParticle c sx sy sz st)))
     = length (sizes (blossomBuffer st)) + 1"
  using blossomParticle_blossomBuffer [of c sx sy sz st] by auto

subsection \<open>Invariants of the generator\<close>

text \<open>
  A property of the state that every emission, every draw and every recorded leaf
  node preserves is preserved by \<open>growBranch\<close>.
\<close>

lemma blossomCluster_preserves:
  assumes Bp: "\<And>c sx sy sz s. P s \<Longrightarrow> P (blossomParticle c sx sy sz s)"
    and R: "\<And>k s. P s \<Longrightarrow> P (s\<lparr>rng := advance k (rng s)\<rparr>)"
  shows "P st \<Longrightarrow> P (blossomCluster endp st)"
  apply (simp add: blossomCluster_def split_def Let_def)
  apply (rule fold_invariant)
   apply (drule R [where k = 6])
   apply (simp add: numeral_eq_Suc)
  apply (erule Bp)
  done

lemma blossomsAt_preserves:
  assumes Bp: "\<And>c sx sy sz s. P s \<Longrightarrow> P (blossomParticle c sx sy sz s)"
    and R: "\<And>k s. P s \<Longrightarrow> P (s\<lparr>rng := advance k (rng s)\<rparr>)"
    and L: "\<And>e s. P s \<Longrightarrow> P (s\<lparr>leafNodesVar := leafNodesVar s @ [e]\<rparr>)"
  shows "P st \<Longrightarrow> P (blossomsAt endp st)"
  apply (simp add: blossomsAt_def Let_def)
  apply (rule fold_invariant)
   apply (erule L)
  apply (erule blossomCluster_preserves [OF Bp R, rotated 2])
   apply assumption+
  done

lemma growBranch_preserves:
  assumes W: "\<And>start endp radius isTrunk u v n i s. P s \<Longrightarrow> P (woodParticle start endp radius isTrunk u v n i s)"
    and R: "\<And>k s. P s \<Longrightarrow> P (s\<lparr>rng := advance k (rng s)\<rparr>)"
    and B: "\<And>endp s. P s \<Longrightarrow> P (blossomsAt endp s)"
  shows "P st \<Longrightarrow> P (growBranch depth0 start direction len radius currentDepth st)"
proof (induction depth0 start direction len radius currentDepth st rule: growBranch.induct)
  case (1 depth0 start direction len radius currentDepth st)
  note IH = "1.IH" [OF refl refl refl refl refl refl refl refl _ refl refl refl refl refl refl]
  have R1: "P (s\<lparr>rng := snd (drawBranchCount b (rng s))\<rparr>)" if "P s" for s b
    using R [OF that, of 1] by simp
  have R2: "P (s\<lparr>rng := snd (childDirection d0 dir tg bt it cd bc i (rng s))\<rparr>)"
    if "P s" for s d0 dir tg bt it cd bc i
    using R [OF that, of 2] by simp
  show ?case
  proof (cases "0 < currentDepth")
    case False
    then show ?thesis
      by (subst growBranch.simps) (simp add: Let_def B W fold_invariant "1.prems")
  next
    case True
    show ?thesis
      apply (subst growBranch.simps)
      apply (simp only: Let_def True if_True)
      apply (rule fold_invariant)
       apply (rule R1)
       apply (rule fold_invariant)
        apply (rule "1.prems")
       apply (erule W)
      apply (rule IH)
        apply (rule True)
       apply assumption
      apply (erule R2)
      done
  qed
qed

section \<open>Leaf nodes and blossoms\<close>

lemma blossomCluster_leafNodesVar [simp]:
  "leafNodesVar (blossomCluster endp st) = leafNodesVar st"
  by (simp add: blossomCluster_def split_def Let_def fold_unchanged)

lemma blossomCluster_count:
  "length (sizes (blossomBuffer (blossomCluster endp st)))
     = length (sizes (blossomBuffer st)) + 90"
  by (simp add: blossomCluster_def split_def Let_def
      fold_counts [where m = "\<lambda>s. length (sizes (blossomBuffer s))" and c = 1]
      blossomParticle_count)

lemma blossomsAt_leafNodesVar:
  "leafNodesVar (blossomsAt endp st) = leafNodesVar st @ [endp]"
  by (simp add: blossomsAt_def Let_def fold_unchanged)

lemma blossomsAt_count:
  "length (sizes (blossomBuffer (blossomsAt endp st)))
     = length (sizes (blossomBuffer st)) + 450"
  by (simp add: blossomsAt_def Let_def
      fold_counts [where m = "\<lambda>s. length (sizes (blossomBuffer s))" and c = 90]
      blossomCluster_count)

lemma wood_fold_blossomBuffer [simp]:
  "blossomBuffer (fold (woodParticle start endp radius isTrunk u v n) xs st) = blossomBuffer st"
  by (rule fold_unchanged) simp

lemma wood_fold_leafNodesVar [simp]:
  "leafNodesVar (fold (woodParticle start endp radius isTrunk u v n) xs st) = leafNodesVar st"
  by (rule fold_unchanged) simp

lemma wood_fold_count:
  "length (sizes (woodBuffer (fold (woodParticle start endp radius isTrunk u v n) xs st)))
     = length (sizes (woodBuffer st)) + length xs"
  using fold_counts [where m = "\<lambda>s. length (sizes (woodBuffer s))" and c = 1
      and f = "woodParticle start endp radius isTrunk u v n" and xs = xs and s = st]
  by (simp add: woodParticle_count)

lemma growBranch_terminal:
  "currentDepth \<le> 0 \<Longrightarrow>
   growBranch depth0 start direction len radius currentDepth st =
     blossomsAt (Vector3_add start (multiplyScalar direction len))
       (fold (woodParticle start (Vector3_add start (multiplyScalar direction len)) radius
                (currentDepth = depth0)
                (normalize (crossVectors direction
                   (if \<bar>vy direction\<bar> > 0.9 then Vector3 1 0 0 else Vector3 0 1 0)))
                (normalize (crossVectors direction (normalize (crossVectors direction
                   (if \<bar>vy direction\<bar> > 0.9 then Vector3 1 0 0 else Vector3 0 1 0)))))
                \<lceil>len * radius * (if currentDepth = depth0 then 32.0 else 12.0)\<rceil>)
          [0..<nat \<lceil>len * radius * (if currentDepth = depth0 then 32.0 else 12.0)\<rceil>] st)"
  by (subst growBranch.simps) (simp add: Let_def)

lemma growBranch_blossoms_per_leaf:
  assumes "length (sizes (blossomBuffer st)) = 450 * length (leafNodesVar st)"
  shows "length (sizes (blossomBuffer (growBranch depth0 start direction len radius currentDepth st)))
     = 450 * length (leafNodesVar (growBranch depth0 start direction len radius currentDepth st))"
  by (rule growBranch_preserves
      [where P = "\<lambda>s. length (sizes (blossomBuffer s)) = 450 * length (leafNodesVar s)"])
    (simp_all add: assms blossomsAt_count blossomsAt_leafNodesVar)

lemma sizes_toData [simp]: "sizes (toData b) = sizes b"
  by (simp add: toData_def Float32Array_from_def)

text \<open>
  Claim C10. A cluster emits 90 blossom particles; a branch with no depth
  remaining records its end point as one leaf node and emits 450 blossom
  particles; and in every generated tree the number of blossom particles is 450
  times the number of leaf nodes.
\<close>

theorem blossoms_per_leaf:
  "particleCount (blossomBuffer (blossomCluster endp st)) = particleCount (blossomBuffer st) + 90
   \<and> leafNodesVar (growBranch depth0 start direction len radius 0 st)
       = leafNodesVar st @ [Vector3_add start (multiplyScalar direction len)]
   \<and> particleCount (blossomBuffer (growBranch depth0 start direction len radius 0 st))
       = particleCount (blossomBuffer st) + 450
   \<and> particleCount (blossoms (fst (generateTree params g)))
       = 450 * length (leafNodes (fst (generateTree params g)))"
proof -
  have tree: "particleCount (blossoms (fst (generateTree params g)))
       = 450 * length (leafNodes (fst (generateTree params g)))"
    by (simp add: generateTree_def Let_def particleCount_def growBranch_blossoms_per_leaf
        ParticleBuffer_new_def)
  have branch: "particleCount (blossomBuffer (blossomCluster endp st))
         = particleCount (blossomBuffer st) + 90
       \<and> leafNodesVar (growBranch depth0 start direction len radius 0 st)
         = leafNodesVar st @ [Vector3_add start (multiplyScalar direction len)]
       \<and> particleCount (blossomBuffer (growBranch depth0 start direction len radius 0 st))
         = particleCount (blossomBuffer st) + 450"
    by (simp add: growBranch_terminal blossomsAt_leafNodesVar blossomsAt_count
        blossomCluster_count particleCount_def)
  from branch tree show ?thesis by blast
qed

section \<open>The layout of the particle arrays\<close>

lemma bufferOf_Nil [simp]: "bufferOf [] = ParticleBuffer_new"
  by (simp add: bufferOf_def)

lemma bufferOf_snoc: "bufferOf (ps @ [p]) = addParticle p (bufferOf ps)"
  by (simp add: bufferOf_def)

lemma bufferOf_arrays:
  "positions (bufferOf ps) = concat (map (\<lambda>p. [vx (p_position p), vy (p_position p), vz (p_position p)]) ps)
   \<and> targetPositions (bufferOf ps) = concat (map (\<lambda>p. [vx (p_target p), vy (p_target p), vz (p_target p)]) ps)
   \<and> colors (bufferOf ps) = concat (map (\<lambda>p. [cr (p_color p), cg (p_color p), cb (p_color p)]) ps)
   \<and> sizes (bufferOf ps) = map p_size ps
   \<and> drifts (bufferOf ps) = concat (map (\<lambda>p. [vx (p_drift p), vy (p_drift p), vz (p_drift p)]) ps)
   \<and> phases (bufferOf ps) = map p_phase ps"
proof (induction ps rule: rev_induct)
  case Nil
  show ?case by (simp add: ParticleBuffer_new_def)
next
  case (snoc p ps)
  then show ?case
    by (simp add: bufferOf_snoc addParticle_def ParticleBuffer_add_def)
qed

lemma nth_concat_triples:
  assumes "i < length ps"
  shows "concat (map (\<lambda>p. [a p, b p, c p]) ps) ! (3 * i) = a (ps ! i)
       \<and> concat (map (\<lambda>p. [a p, b p, c p]) ps) ! Suc (3 * i) = b (ps ! i)
       \<and> concat (map (\<lambda>p. [a p, b p, c p]) ps) ! Suc (Suc (3 * i)) = c (ps ! i)"
  using assms
proof (induction ps arbitrary: i)
  case Nil
  then show ?case by simp
next
  case (Cons p ps)
  show ?case
  proof (cases i)
    case 0
    then show ?thesis by simp
  next
    case (Suc j)
    with Cons.prems have "j < length ps" by simp
    from Cons.IH [OF this] show ?thesis
      using Suc by (simp add: numeral_3_eq_3 numeral_2_eq_2)
  qed
qed


lemma particleAt_bufferOf:
  assumes "i < length ps"
  shows "particleAt (bufferOf ps) i = ps ! i"
proof -
  note t1 = nth_concat_triples [OF assms, of "\<lambda>p. vx (p_position p)"
      "\<lambda>p. vy (p_position p)" "\<lambda>p. vz (p_position p)"]
  note t2 = nth_concat_triples [OF assms, of "\<lambda>p. vx (p_target p)"
      "\<lambda>p. vy (p_target p)" "\<lambda>p. vz (p_target p)"]
  note t3 = nth_concat_triples [OF assms, of "\<lambda>p. cr (p_color p)"
      "\<lambda>p. cg (p_color p)" "\<lambda>p. cb (p_color p)"]
  note t4 = nth_concat_triples [OF assms, of "\<lambda>p. vx (p_drift p)"
      "\<lambda>p. vy (p_drift p)" "\<lambda>p. vz (p_drift p)"]
  show ?thesis
    using assms
    by (simp add: particleAt_def vec3At_def colorAt_def bufferOf_arrays t1 t2 t3 t4)
qed

lemma particleCount_bufferOf [simp]: "particleCount (bufferOf ps) = length ps"
  by (simp add: particleCount_def bufferOf_arrays)

lemma map_particleAt_bufferOf:
  "map (particleAt (bufferOf ps)) [0..<length ps] = ps"
  by (rule nth_equalityI) (simp_all add: particleAt_bufferOf)



lemma toData_id [simp]: "toData b = b"
  by (simp add: toData_def Float32Array_from_def)


section \<open>Photo entries\<close>

lemma snd_photoEntry [simp]: "snd (photoEntry node index g) = advance 9 g"
  by (simp add: photoEntry_def split_def Let_def numeral_eq_Suc)

lemma position_photoEntry [simp]:
  "position (fst (photoEntry node index g)) = Vector3_add node (Vector3 0 (- 10) 0)"
  by (simp add: photoEntry_def split_def Let_def)

lemma photoId_photoEntry [simp]: "photoId (fst (photoEntry node index g)) = index"
  by (simp add: photoEntry_def split_def Let_def)

lemma photoEntries_positions:
  "map position (fst (photoEntries nodes index g))
     = map (\<lambda>node. Vector3_add node (Vector3 0 (- 10) 0)) nodes"
  by (induction nodes arbitrary: index g) (simp_all add: split_def)

lemma photoEntries_length [simp]: "length (fst (photoEntries nodes index g)) = length nodes"
  using arg_cong [OF photoEntries_positions [of nodes index g], of length] by simp

lemma photoEntries_rng: "\<exists>k. snd (photoEntries nodes index g) = advance k g"
proof (induction nodes arbitrary: index g)
  case Nil
  show ?case by (rule exI [of _ 0]) simp
next
  case (Cons node nodes)
  from Cons [of "Suc index" "advance 9 g"] show ?case
    by (auto simp add: split_def)
qed

lemma slice0_nonneg: "0 \<le> e \<Longrightarrow> slice0 xs e = take (nat e) xs"
  by (simp add: slice0_def Let_def min_def)

section \<open>Photo anchors\<close>

lemma insertRandom_mset: "mset (fst (insertRandom x ys g)) = add_mset x (mset ys)"
  by (induction ys arbitrary: g) (simp_all add: split_def)

lemma insertRandom_rng: "\<exists>k. snd (insertRandom x ys g) = advance k g"
proof (induction ys arbitrary: g)
  case Nil
  show ?case by (rule exI [of _ 0]) simp
next
  case (Cons y ys)
  from Cons [of "advance 1 g"] show ?case
    by (auto simp add: split_def)
qed

lemma insertionSortRandom_mset: "mset (fst (insertionSortRandom xs g)) = mset xs"
  by (induction xs arbitrary: g) (simp_all add: split_def insertRandom_mset)

lemma insertionSortRandom_rng: "\<exists>k. snd (insertionSortRandom xs g) = advance k g"
proof (induction xs arbitrary: g)
  case Nil
  show ?case by (rule exI [of _ 0]) simp
next
  case (Cons x xs)
  from Cons [of g] obtain k where k: "snd (insertionSortRandom xs g) = advance k g"
    by blast
  from insertRandom_rng [of x "fst (insertionSortRandom xs g)" "advance k g"]
  show ?case
    by (auto simp add: split_def k)
qed

lemma permuting_insertionSortRandom: "permuting_sort insertionSortRandom"
  by (simp add: permuting_sort_def insertionSortRandom_mset insertionSortRandom_rng)

lemma nth_skip:
  "(xs1 @ y # xs2) ! (if j < length xs1 then j else Suc j) = (xs1 @ xs2) ! j"
proof (cases "j < length xs1")
  case True
  then show ?thesis by (simp add: nth_append)
next
  case False
  then have "Suc j - length xs1 = Suc (j - length xs1)"
    by simp
  with False show ?thesis by (simp add: nth_append)
qed

lemma mset_eq_indices:
  "mset ys = mset xs \<Longrightarrow>
   \<exists>is. distinct is \<and> (\<forall>i\<in>set is. i < length xs) \<and> ys = map ((!) xs) is"
proof (induction ys arbitrary: xs)
  case Nil
  then show ?case by simp
next
  case (Cons y ys)
  from Cons.prems have "y \<in> set xs"
    by (metis list.set_intros(1) set_mset_mset)
  then obtain xs1 xs2 where xs: "xs = xs1 @ y # xs2"
    by (meson split_list)
  with Cons.prems have "mset ys = mset (xs1 @ xs2)"
    by simp
  from Cons.IH [OF this] obtain js where js: "distinct js"
    "\<forall>i\<in>set js. i < length (xs1 @ xs2)" "ys = map ((!) (xs1 @ xs2)) js"
    by blast
  define shift where "shift j = (if j < length xs1 then j else Suc j)" for j
  have inj: "inj_on shift A" for A
    unfolding inj_on_def shift_def by (simp split: if_splits)
  have nth: "xs ! shift j = (xs1 @ xs2) ! j" for j
    unfolding xs shift_def by (rule nth_skip)
  have ne: "length xs1 \<noteq> shift j" for j
    unfolding shift_def by simp
  have bound: "shift j < length xs" if "j < length (xs1 @ xs2)" for j
    using that unfolding xs shift_def by simp
  let ?is = "length xs1 # map shift js"
  have d: "distinct (map shift js)"
    using js(1) inj by (simp only: distinct_map)
  have n: "length xs1 \<notin> set (map shift js)"
  proof
    assume "length xs1 \<in> set (map shift js)"
    then obtain j where "length xs1 = shift j"
      unfolding set_map by (rule imageE)
    with ne [of j] show False by (rule notE)
  qed
  have 1: "distinct ?is"
    using d n by simp
  have 2: "\<forall>i\<in>set ?is. i < length xs"
  proof
    fix i assume "i \<in> set ?is"
    then have "i = length xs1 \<or> i \<in> shift ` set js"
      by (simp only: set_simps set_map insert_iff)
    then consider "i = length xs1" | j where "j \<in> set js" "i = shift j"
      by blast
    then show "i < length xs"
    proof cases
      case 1
      then show ?thesis by (simp add: xs)
    next
      case 2
      then show ?thesis using js(2) bound by blast
    qed
  qed
  have a: "map ((!) xs) (map shift js) = ys"
    unfolding js(3) by (simp only: map_map o_def nth)
  have b: "xs ! length xs1 = y"
    unfolding xs by (rule nth_append_length)
  have 3: "y # ys = map ((!) xs) ?is"
    by (simp only: list.map a b)
  from 1 2 3 have "distinct ?is \<and> (\<forall>i\<in>set ?is. i < length xs) \<and> y # ys = map ((!) xs) ?is"
    by (intro conjI)
  then show ?case by (rule exI)
qed

lemma createPhotoData_Nil [simp]: "createPhotoData srt [] count0 g = ([], g)"
  by (simp add: createPhotoData_def)

lemma createPhotoData_chosen:
  assumes "permuting_sort srt" and "0 \<le> count0"
  shows "\<exists>is. distinct is \<and> (\<forall>i\<in>set is. i < length nodes)
            \<and> length is = min (nat count0) (length nodes)
            \<and> map position (fst (createPhotoData srt nodes count0 g))
                = map (\<lambda>i. Vector3_add (nodes ! i) (Vector3 0 (- 10) 0)) is"
proof (cases "nodes = []")
  case True
  then show ?thesis by simp
next
  case False
  from assms(1) have m: "mset (fst (srt nodes g)) = mset nodes"
    by (simp add: permuting_sort_def)
  from mset_eq_indices [OF m] obtain js where js: "distinct js"
    "\<forall>i\<in>set js. i < length nodes" "fst (srt nodes g) = map ((!) nodes) js"
    by (elim exE conjE)
  have "length (map ((!) nodes) js) = length nodes"
    using mset_eq_length [OF m] unfolding js(3) .
  then have len: "length js = length nodes"
    by simp
  let ?k = "nat (min count0 (int (length nodes)))"
  have k: "?k = min (nat count0) (length nodes)"
    using assms(2) by (simp add: min_def nat_le_iff)
  have "map position (fst (createPhotoData srt nodes count0 g))
      = map (\<lambda>node. Vector3_add node (Vector3 0 (- 10) 0)) (take ?k (fst (srt nodes g)))"
    using False assms(2)
    by (simp add: createPhotoData_def Let_def split_def photoEntries_positions slice0_nonneg)
  also have "\<dots> = map (\<lambda>i. Vector3_add (nodes ! i) (Vector3 0 (- 10) 0)) (take ?k js)"
    by (simp add: js(3) take_map)
  finally have eq: "map position (fst (createPhotoData srt nodes count0 g))
      = map (\<lambda>i. Vector3_add (nodes ! i) (Vector3 0 (- 10) 0)) (take ?k js)" .
  have 1: "distinct (take ?k js)"
    using js(1) by (rule distinct_take)
  have 2: "\<forall>i\<in>set (take ?k js). i < length nodes"
    using js(2) by (meson in_set_takeD)
  have 3: "length (take ?k js) = min (nat count0) (length nodes)"
    by (simp add: len k)
  from 1 2 3 eq have "distinct (take ?k js) \<and> (\<forall>i\<in>set (take ?k js). i < length nodes)
            \<and> length (take ?k js) = min (nat count0) (length nodes)
            \<and> map position (fst (createPhotoData srt nodes count0 g))
                = map (\<lambda>i. Vector3_add (nodes ! i) (Vector3 0 (- 10) 0)) (take ?k js)"
    by (intro conjI)
  then show ?thesis by (rule exI)
qed

text \<open>
  Claim C6. For every list of leaf nodes and every non-negative count,
  \<open>createPhotoData\<close> returns exactly \<open>min(count, leafNodes.length)\<close> photo entities;
  their tree-mode positions are those of pairwise distinct indices of the list,
  each lowered by 10; and the empty list gives no entity.
\<close>

theorem createPhotoData_count:
  assumes "permuting_sort srt" and "0 \<le> count0"
  shows "length (fst (createPhotoData srt nodes count0 g)) = min (nat count0) (length nodes)
       \<and> (\<exists>is. distinct is \<and> (\<forall>i\<in>set is. i < length nodes)
              \<and> map position (fst (createPhotoData srt nodes count0 g))
                  = map (\<lambda>i. Vector3_add (nodes ! i) (Vector3 0 (- 10) 0)) is)
       \<and> fst (createPhotoData srt [] count0 g) = []"
proof -
  from createPhotoData_chosen [OF assms, of nodes g] obtain js where js:
    "distinct js" "\<forall>i\<in>set js. i < length nodes" "length js = min (nat count0) (length nodes)"
    "map position (fst (createPhotoData srt nodes count0 g))
       = map (\<lambda>i. Vector3_add (nodes ! i) (Vector3 0 (- 10) 0)) js"
    by (elim exE conjE)
  from arg_cong [OF js(4), of length] js(3)
  have 1: "length (fst (createPhotoData srt nodes count0 g)) = min (nat count0) (length nodes)"
    by simp
  from js(1,2,4) have "distinct js \<and> (\<forall>i\<in>set js. i < length nodes)
              \<and> map position (fst (createPhotoData srt nodes count0 g))
                  = map (\<lambda>i. Vector3_add (nodes ! i) (Vector3 0 (- 10) 0)) js"
    by (intro conjI)
  then have 2: "\<exists>is. distinct is \<and> (\<forall>i\<in>set is. i < length nodes)
              \<and> map position (fst (createPhotoData srt nodes count0 g))
                  = map (\<lambda>i. Vector3_add (nodes ! i) (Vector3 0 (- 10) 0)) is"
    by (rule exI)
  have 3: "fst (createPhotoData srt [] count0 g) = []"
    by simp
  from 1 2 3 show ?thesis by (intro conjI)
qed

text \<open>
  Claim C6, witness: two photos from three leaf nodes, with the insertion sort as
  the engine's sort and a random source that always yields one half.
\<close>

theorem createPhotoData_count_witness:
  "permuting_sort insertionSortRandom \<and> (0 :: int) \<le> 2
   \<and> length (fst (createPhotoData insertionSortRandom [Vector3 0 0 0, Vector3 1 0 0, Vector3 2 0 0]
                 2 (\<lambda>_. 1 / 2))) = 2
   \<and> (\<exists>is. distinct is
         \<and> (\<forall>i\<in>set is. i < length [Vector3 0 0 0, Vector3 1 0 0, Vector3 2 0 0])
         \<and> map position (fst (createPhotoData insertionSortRandom
                 [Vector3 0 0 0, Vector3 1 0 0, Vector3 2 0 0] 2 (\<lambda>_. 1 / 2)))
             = map (\<lambda>i. Vector3_add ([Vector3 0 0 0, Vector3 1 0 0, Vector3 2 0 0] ! i)
                     (Vector3 0 (- 10) 0)) is)
   \<and> fst (createPhotoData insertionSortRandom [] 2 (\<lambda>_. 1 / 2)) = []"
proof -
  have z: "(0 :: int) \<le> 2" by simp
  note t = createPhotoData_count [OF permuting_insertionSortRandom z,
      of "[Vector3 0 0 0, Vector3 1 0 0, Vector3 2 0 0]" "\<lambda>_. 1 / 2"]
  from t have n: "length (fst (createPhotoData insertionSortRandom
      [Vector3 0 0 0, Vector3 1 0 0, Vector3 2 0 0] 2 (\<lambda>_. 1 / 2))) = 2"
    by simp
  from t n permuting_insertionSortRandom z
  show ?thesis by (intro conjI) (elim conjE, assumption)+
qed

section \<open>Scene setup\<close>

lemma blossomCluster_woodBuffer [simp]: "woodBuffer (blossomCluster endp st) = woodBuffer st"
  by (simp add: blossomCluster_def split_def Let_def fold_unchanged)

lemma blossomsAt_woodBuffer [simp]: "woodBuffer (blossomsAt endp st) = woodBuffer st"
  by (simp add: blossomsAt_def Let_def fold_unchanged)

lemma ex_advance: "n \<le> m \<Longrightarrow> \<exists>k\<ge>n. advance m g = advance k g"
  by blast

lemma woodParticle_rng_12:
  "\<exists>k\<ge>12. rng (woodParticle start endp radius isTrunk u v n i st) = advance k (rng st)"
  by (auto simp add: woodParticle_def split_def Let_def intro!: ex_advance)

lemma wood_fold_rng:
  "\<exists>k\<ge>12 * length xs.
     rng (fold (woodParticle start endp radius isTrunk u v n) xs st) = advance k (rng st)"
proof (induction xs arbitrary: st)
  case Nil
  show ?case by (rule exI [of _ 0]) simp
next
  case (Cons i xs)
  obtain k where k: "12 \<le> k"
    "rng (woodParticle start endp radius isTrunk u v n i st) = advance k (rng st)"
    using woodParticle_rng_12 [of start endp radius isTrunk u v n i st] by blast
  obtain k' where k': "12 * length xs \<le> k'"
    "rng (fold (woodParticle start endp radius isTrunk u v n) xs
            (woodParticle start endp radius isTrunk u v n i st))
       = advance k' (rng (woodParticle start endp radius isTrunk u v n i st))"
    using Cons [of "woodParticle start endp radius isTrunk u v n i st"] by blast
  have "12 * length (i # xs) \<le> k + k'"
    using k(1) k'(1) by simp
  moreover have "rng (fold (woodParticle start endp radius isTrunk u v n) (i # xs) st)
      = advance (k + k') (rng st)"
    by (simp add: k'(2) k(2))
  ultimately show ?case by blast
qed

lemma later_step:
  assumes "\<exists>k\<ge>n. g1 = advance k g" and "\<exists>j. g2 = advance j g1"
  shows "\<exists>k\<ge>(n :: nat). g2 = advance k g"
proof -
  from assms obtain k j where k: "n \<le> k" "g1 = advance k g" "g2 = advance j g1"
    by blast
  have "g2 = advance (k + j) g"
    by (simp add: k(2,3))
  moreover have "n \<le> k + j" using k(1) by simp
  ultimately show ?thesis by blast
qed

lemma blossomsAt_rng_later:
  assumes "\<exists>k\<ge>n. rng st = advance k g"
  shows "\<exists>k\<ge>n. rng (blossomsAt endp st) = advance k g"
proof -
  let ?P = "\<lambda>s. \<exists>k\<ge>n. rng s = advance k g"
  have Bp: "?P (blossomParticle c sx sy sz s)" if "?P s" for c sx sy sz s
    using that blossomParticle_rng [of c sx sy sz s] by (rule later_step)
  have R: "?P (s\<lparr>rng := advance j (rng s)\<rparr>)" if "?P s" for j s
    using that by (rule later_step) auto
  have L: "?P (s\<lparr>leafNodesVar := leafNodesVar s @ [e]\<rparr>)" if "?P s" for e s
    using that by simp
  show ?thesis
    apply (rule blossomsAt_preserves [where P = ?P])
       apply (erule Bp)
      apply (erule R)
     apply (erule L)
    apply (rule assms)
    done
qed

lemma growBranch_rng_later:
  assumes "\<exists>k\<ge>n. rng st = advance k g"
  shows "\<exists>k\<ge>n. rng (growBranch depth0 start direction len radius currentDepth st) = advance k g"
proof -
  let ?P = "\<lambda>s. \<exists>k\<ge>n. rng s = advance k g"
  have W: "?P (woodParticle start endp radius isTrunk u v m i s)"
    if "?P s" for start endp radius isTrunk u v m i s
    using that woodParticle_rng [of start endp radius isTrunk u v m i s] by (rule later_step)
  have R: "?P (s\<lparr>rng := advance j (rng s)\<rparr>)" if "?P s" for j s
    using that by (rule later_step) auto
  show ?thesis
    apply (rule growBranch_preserves [where P = ?P])
       apply (erule W)
      apply (erule R)
     apply (erule blossomsAt_rng_later)
    apply (rule assms)
    done
qed

lemma growBranch_rng_wood:
  "\<exists>k \<ge> 12 * nat \<lceil>len * radius * (if currentDepth = depth0 then 32.0 else 12.0)\<rceil>.
     rng (growBranch depth0 start direction len radius currentDepth st) = advance k (rng st)"
proof -
  let ?m = "nat \<lceil>len * radius * (if currentDepth = depth0 then 32.0 else 12.0)\<rceil>"
  let ?P = "\<lambda>s. \<exists>k\<ge>12 * ?m. rng s = advance k (rng st)"
  let ?endp = "Vector3_add start (multiplyScalar direction len)"
  let ?axis = "if \<bar>vy direction\<bar> > 0.9 then Vector3 1 0 0 else Vector3 0 1 0"
  let ?st1 = "fold (woodParticle start ?endp radius (currentDepth = depth0)
                (normalize (crossVectors direction ?axis))
                (normalize (crossVectors direction (normalize (crossVectors direction ?axis))))
                \<lceil>len * radius * (if currentDepth = depth0 then 32.0 else 12.0)\<rceil>)
          [0..<?m] st"
  have P1: "?P ?st1"
    using wood_fold_rng [of "[0..<?m]" start ?endp radius "currentDepth = depth0" _ _ _ st]
    by simp
  have R: "?P (s\<lparr>rng := g'\<rparr>)" if "?P s" and "\<exists>j. g' = advance j (rng s)" for g' s
    using later_step [OF that] by simp
  show ?thesis
  proof (cases "0 < currentDepth")
    case False
    then have "growBranch depth0 start direction len radius currentDepth st
        = blossomsAt ?endp ?st1"
      by (simp add: growBranch_terminal)
    then show ?thesis
      using blossomsAt_rng_later [OF P1, of ?endp] by simp
  next
    case True
    show ?thesis
      apply (subst growBranch.simps)
      apply (simp only: Let_def True if_True)
      apply (rule fold_invariant [where P = ?P])
       apply (rule R [OF P1])
       apply (rule exI [of _ 1], simp)
      apply (rule growBranch_rng_later)
      apply (erule R)
      apply (rule exI [of _ 2], simp)
      done
  qed
qed

lemma generateTree_rng_wood:
  "\<exists>k \<ge> 12 * nat \<lceil>320 * branchLength params\<rceil>. snd (generateTree params g) = advance k g"
  using growBranch_rng_wood [of "branchLength params" 10 "depth params" "depth params"
      "startPos params" "Vector3 0 1 0"
      "\<lparr>rng = g, woodBuffer = ParticleBuffer_new, blossomBuffer = ParticleBuffer_new,
        leafNodesVar = []\<rparr>"]
  by (simp add: generateTree_def Let_def)

text \<open>
  Claim C8, what the code does. The rendered tree is the result of the first call
  of \<open>generateTree\<close>. The photos are anchored to the leaf nodes of a second call,
  which starts from the random source as the first call left it: at least 134400
  outcomes further on (the trunk alone emits 11200 wood particles of at least 12
  draws each). The second tree shares no random outcome with the rendered one.
\<close>

theorem Scene_grows_two_trees:
  "fst (fst (Scene_useMemo srt g)) = fst (generateTree sceneParams g)
   \<and> snd (fst (Scene_useMemo srt g))
       = fst (createPhotoData srt
           (leafNodes (fst (generateTree sceneParams (snd (generateTree sceneParams g))))) 16
           (snd (generateTree sceneParams (snd (generateTree sceneParams g)))))
   \<and> (\<exists>k\<ge>134400. snd (generateTree sceneParams g) = advance k g)"
proof -
  have "\<exists>k\<ge>134400. snd (generateTree sceneParams g) = advance k g"
    using generateTree_rng_wood [of sceneParams g] by (simp add: sceneParams_def)
  then show ?thesis
    by (simp add: Scene_useMemo_def split_def)
qed

section \<open>Rounding to the nearest, ties to even\<close>

lemma round_even_of_int [simp]: "round_even (of_int n) = n"
  by (simp add: round_even_def)

lemma round_even_near:
  assumes "of_int n - 1 / 2 < r" and "r < of_int n + 1 / 2"
  shows "round_even r = n"
proof (cases "of_int n \<le> r")
  case True
  with assms have "\<lfloor>r\<rfloor> = n" by (simp add: floor_eq_iff)
  with assms show ?thesis by (simp add: round_even_def)
next
  case False
  with assms have f: "\<lfloor>r\<rfloor> = n - 1" by (simp add: floor_eq_iff)
  with assms False show ?thesis by (simp add: round_even_def)
qed

lemma round_even_tie:
  assumes "r = of_int n + 1 / 2"
  shows "round_even r = (if even n then n else n + 1)"
proof -
  have "\<lfloor>r\<rfloor> = n" using assms by (simp add: floor_eq_iff)
  then show ?thesis using assms by (simp add: round_even_def)
qed

lemma round_even_le:
  assumes "r \<le> of_int n"
  shows "round_even r \<le> n"
proof -
  have f: "\<lfloor>r\<rfloor> \<le> n" using assms by (simp add: floor_le_iff)
  show ?thesis
  proof (cases "\<lfloor>r\<rfloor> = n")
    case True
    then have "r = of_int n" using assms by (metis of_int_floor_le order_antisym)
    then show ?thesis by simp
  next
    case False
    with f have "\<lfloor>r\<rfloor> + 1 \<le> n" by simp
    then show ?thesis
      by (simp add: round_even_def Let_def)
  qed
qed

lemma round_even_ge:
  assumes "of_int n \<le> r"
  shows "n \<le> round_even r"
proof -
  have "n \<le> \<lfloor>r\<rfloor>" using assms by (simp add: le_floor_iff)
  then show ?thesis by (simp add: round_even_def Let_def)
qed

lemma round_even_error: "\<bar>of_int (round_even r) - r\<bar> \<le> 1 / 2"
proof -
  define d where "d = r - of_int \<lfloor>r\<rfloor>"
  have d: "0 \<le> d" "d < 1" unfolding d_def by linarith+
  have r: "r = of_int \<lfloor>r\<rfloor> + d" unfolding d_def by simp
  consider "d < 1 / 2" | "1 / 2 < d" | "d = 1 / 2" by linarith
  then show ?thesis
  proof cases
    case 1
    then have "round_even r = \<lfloor>r\<rfloor>"
      by (simp add: round_even_def Let_def d_def)
    then show ?thesis using 1 d r by simp
  next
    case 2
    then have "round_even r = \<lfloor>r\<rfloor> + 1"
      by (simp add: round_even_def Let_def d_def)
    then show ?thesis using 2 d r by simp
  next
    case 3
    then have "round_even r = \<lfloor>r\<rfloor> \<or> round_even r = \<lfloor>r\<rfloor> + 1"
      by (simp add: round_even_def Let_def d_def)
    then show ?thesis using 3 r by auto
  qed
qed

subsection \<open>Powers of two and the exponent\<close>

lemma pow2_powr: "2 powr (real_of_int k) = (2 :: real) powi k"
  by (simp add: powr_real_of_int power_int_def power_one_over inverse_eq_divide)

lemma pow2_add: "(2 :: real) powi (a + b) = 2 powi a * 2 powi b"
  by (simp add: power_int_add)

lemma pow2_mono: "a \<le> b \<Longrightarrow> (2 :: real) powi a \<le> 2 powi b"
  by (simp add: power_int_increasing)

lemma pow2_strict_mono: "a < b \<Longrightarrow> (2 :: real) powi a < 2 powi b"
  by (simp add: power_int_strict_increasing)

lemma pow2_pos [simp]: "0 < (2 :: real) powi a"
  by simp

lemma floor_log2:
  assumes "0 < x"
  shows "\<lfloor>log 2 x\<rfloor> = k \<longleftrightarrow> 2 powi k \<le> x \<and> x < 2 powi (k + 1)"
  using floor_log_eq_powr_iff [of x 2 k] assms pow2_powr [of k] pow2_powr [of "k + 1"]
  by simp

lemma floor_log2_bounds:
  assumes "0 < x"
  shows "2 powi \<lfloor>log 2 x\<rfloor> \<le> x" and "x < 2 powi (\<lfloor>log 2 x\<rfloor> + 1)"
  using floor_log2 [OF assms, of "\<lfloor>log 2 x\<rfloor>"] by simp_all

lemma floor_log2_le:
  assumes "0 < x" and "x < 2 powi (e + 1)"
  shows "\<lfloor>log 2 x\<rfloor> \<le> e"
proof (rule ccontr)
  assume "\<not> \<lfloor>log 2 x\<rfloor> \<le> e"
  then have "e + 1 \<le> \<lfloor>log 2 x\<rfloor>" by simp
  then have "(2 :: real) powi (e + 1) \<le> 2 powi \<lfloor>log 2 x\<rfloor>" by (rule pow2_mono)
  with floor_log2_bounds(1) [OF assms(1)] assms(2) show False by simp
qed


lemma expo_eq:
  assumes "2 powi e \<le> \<bar>x\<bar>" and "\<bar>x\<bar> < 2 powi (e + 1)" and "emin \<le> e"
  shows "expo emin x = e"
proof -
  have "0 < \<bar>x\<bar>" using assms(1) pow2_pos [of e] by linarith
  then have "\<lfloor>log 2 \<bar>x\<bar>\<rfloor> = e" using assms by (simp add: floor_log2)
  then show ?thesis using assms(3) by (simp add: expo_def)
qed

lemma expo_ge_emin: "emin \<le> expo emin x"
  by (simp add: expo_def)

lemma expo_upper:
  assumes "x \<noteq> 0"
  shows "\<bar>x\<bar> < 2 powi (expo emin x + 1)"
proof -
  have p: "0 < \<bar>x\<bar>" using assms by simp
  have "\<bar>x\<bar> < 2 powi (\<lfloor>log 2 \<bar>x\<bar>\<rfloor> + 1)" by (rule floor_log2_bounds(2) [OF p])
  also have "\<dots> \<le> 2 powi (expo emin x + 1)"
    by (rule pow2_mono) (simp add: expo_def)
  finally show ?thesis .
qed

lemma expo_le:
  assumes "x \<noteq> 0" and "\<bar>x\<bar> < 2 powi (e + 1)" and "emin \<le> e"
  shows "expo emin x \<le> e"
  using floor_log2_le [of "\<bar>x\<bar>" e] assms by (simp add: expo_def)


subsection \<open>Rounding\<close>

lemma ulp_pos [simp]: "0 < ulp p emin x"
  by (simp add: ulp_def)

lemma ulp_nonneg [simp]: "0 \<le> ulp p emin x"
  by (rule less_imp_le) (rule ulp_pos)

lemma ulp_neq0 [simp]: "ulp p emin x \<noteq> 0"
  using ulp_pos [of p emin x] by linarith

lemma rnd_0 [simp]: "rnd p emin 0 = 0"
  by (simp add: rnd_def)

lemma rnd_multiple:
  assumes "x = of_int n * ulp p emin x"
  shows "rnd p emin x = x"
proof (cases "x = 0")
  case True
  then show ?thesis by simp
next
  case False
  have "of_int n * ulp p emin x / ulp p emin x = of_int n"
    using ulp_pos [of p emin x] by simp
  then have "x / ulp p emin x = of_int n"
    using assms by simp
  then show ?thesis
    using False assms by (simp add: rnd_def)
qed

lemma rnd_le_multiple:
  assumes "x \<le> of_int n * ulp p emin x"
  shows "rnd p emin x \<le> of_int n * ulp p emin x"
proof (cases "x = 0")
  case True
  with assms show ?thesis by simp
next
  case False
  have "x / ulp p emin x \<le> of_int n"
    using assms ulp_pos [of p emin x] by (simp add: field_simps)
  then have "round_even (x / ulp p emin x) \<le> n" by (rule round_even_le)
  then have "real_of_int (round_even (x / ulp p emin x)) \<le> of_int n" by simp
  then show ?thesis
    using False ulp_pos [of p emin x] by (simp add: rnd_def)
qed

lemma rnd_ge_multiple:
  assumes "of_int n * ulp p emin x \<le> x"
  shows "of_int n * ulp p emin x \<le> rnd p emin x"
proof (cases "x = 0")
  case True
  with assms show ?thesis by simp
next
  case False
  have "of_int n \<le> x / ulp p emin x"
    using assms ulp_pos [of p emin x] by (simp add: field_simps)
  then have "n \<le> round_even (x / ulp p emin x)" by (rule round_even_ge)
  then have "real_of_int n \<le> of_int (round_even (x / ulp p emin x))" by simp
  then show ?thesis
    using False ulp_pos [of p emin x] by (simp add: rnd_def)
qed

lemma rnd_nonneg: "0 \<le> x \<Longrightarrow> 0 \<le> rnd p emin x"
  using rnd_ge_multiple [of 0 p emin x] by simp

lemma rnd_nonpos: "x \<le> 0 \<Longrightarrow> rnd p emin x \<le> 0"
  using rnd_le_multiple [of x 0 p emin] by simp

lemma rnd_error: "\<bar>rnd p emin x - x\<bar> \<le> ulp p emin x / 2"
proof (cases "x = 0")
  case True
  then show ?thesis by simp
next
  case False
  let ?u = "ulp p emin x"
  let ?n = "real_of_int (round_even (x / ?u))"
  have "\<bar>?n - x / ?u\<bar> \<le> 1 / 2" by (rule round_even_error)
  then have "\<bar>?n - x / ?u\<bar> * ?u \<le> 1 / 2 * ?u"
    by (rule mult_right_mono) simp
  moreover have "\<bar>?n - x / ?u\<bar> * ?u = \<bar>(?n - x / ?u) * ?u\<bar>"
    by (simp add: abs_mult)
  moreover have "(?n - x / ?u) * ?u = ?n * ?u - x"
    by (simp add: left_diff_distrib)
  ultimately show ?thesis using False by (simp add: rnd_def)
qed


lemma round_even_uminus: "round_even (- r) = - round_even r"
proof (cases "r - of_int \<lfloor>r\<rfloor> = 1 / 2")
  case True
  then have r: "r = of_int \<lfloor>r\<rfloor> + 1 / 2" by simp
  have "- r = of_int (- \<lfloor>r\<rfloor> - 1) + 1 / 2" using r by simp
  then have "round_even (- r) = (if even (- \<lfloor>r\<rfloor> - 1) then - \<lfloor>r\<rfloor> - 1 else - \<lfloor>r\<rfloor> - 1 + 1)"
    by (rule round_even_tie)
  moreover have "round_even r = (if even \<lfloor>r\<rfloor> then \<lfloor>r\<rfloor> else \<lfloor>r\<rfloor> + 1)"
    using r by (rule round_even_tie)
  ultimately show ?thesis by simp
next
  case False
  let ?n = "round_even r"
  have e: "\<bar>real_of_int ?n - r\<bar> \<le> 1 / 2" by (rule round_even_error)
  have ne: "\<bar>real_of_int ?n - r\<bar> \<noteq> 1 / 2"
  proof
    assume a: "\<bar>real_of_int ?n - r\<bar> = 1 / 2"
    have fl: "of_int \<lfloor>r\<rfloor> \<le> r" "r < of_int \<lfloor>r\<rfloor> + 1" by linarith+
    from a have "r = of_int ?n + 1 / 2 \<or> r = of_int (?n - 1) + 1 / 2"
      using a by (simp only: of_int_diff of_int_1) argo
    then show False
    proof
      assume h: "r = of_int ?n + 1 / 2"
      then have "\<lfloor>r\<rfloor> = ?n" by (intro floor_unique) simp_all
      with h False show False by simp
    next
      assume h: "r = of_int (?n - 1) + 1 / 2"
      then have "\<lfloor>r\<rfloor> = ?n - 1" by (intro floor_unique) simp_all
      with h False show False by simp
    qed
  qed
  have "- real_of_int ?n - 1 / 2 < - r" using e ne by argo
  moreover have "- r < - real_of_int ?n + 1 / 2" using e ne by argo
  ultimately have "real_of_int (- ?n) - 1 / 2 < - r" "- r < real_of_int (- ?n) + 1 / 2"
    by (simp_all only: of_int_minus)
  then show ?thesis by (rule round_even_near)
qed

lemma expo_uminus [simp]: "expo emin (- x) = expo emin x"
  by (simp add: expo_def)

lemma ulp_uminus [simp]: "ulp p emin (- x) = ulp p emin x"
  by (simp add: ulp_def)

lemma rnd_uminus: "rnd p emin (- x) = - rnd p emin x"
  by (simp add: rnd_def round_even_uminus)

text \<open>A number with a significand of at most \<open>p\<close> bits and an exponent in range is kept.\<close>

lemma rnd_representable:
  assumes x: "x = of_int m * 2 powi k" and m: "\<bar>m\<bar> < 2 ^ p" and k: "emin - (int p - 1) \<le> k"
  shows "rnd p emin x = x"
proof (cases "x = 0")
  case True
  then show ?thesis by simp
next
  case False
  let ?e = "expo emin x"
  have le: "?e \<le> k + (int p - 1)"
  proof (rule expo_le [OF False])
    have "\<bar>x\<bar> = \<bar>real_of_int m\<bar> * 2 powi k" using x by (simp add: abs_mult)
    also have "\<dots> < 2 ^ p * 2 powi k"
    proof (rule mult_strict_right_mono)
      have "real_of_int \<bar>m\<bar> < real_of_int (2 ^ p)" using m by (simp only: of_int_less_iff)
      then show "\<bar>real_of_int m\<bar> < 2 ^ p" by simp
    qed simp
    also have "\<dots> = 2 powi (k + int p)"
      by (simp add: power_int_add)
    also have "k + int p = k + (int p - 1) + 1" by simp
    finally show "\<bar>x\<bar> < 2 powi (k + (int p - 1) + 1)" .
    show "emin \<le> k + (int p - 1)" using k by simp
  qed
  define j where "j = nat (k + (int p - 1) - ?e)"
  have j: "k = ?e - (int p - 1) + int j" using le by (simp add: j_def)
  define u where "u = ulp p emin x"
  have "2 powi k = (2 :: real) powi (?e - (int p - 1)) * 2 powi (int j)"
    by (subst j) (rule pow2_add)
  then have pk: "2 powi k = u * 2 ^ j" by (simp add: ulp_def u_def)
  have "x = of_int m * 2 powi k" by (rule x)
  also have "\<dots> = of_int m * (u * 2 ^ j)" by (simp only: pk)
  also have "\<dots> = of_int (m * 2 ^ j) * u" by simp
  finally have "x = of_int (m * 2 ^ j) * ulp p emin x" unfolding u_def .
  then show ?thesis by (rule rnd_multiple)
qed

lemma rnd_pow2:
  assumes "emin \<le> k" and "0 < p"
  shows "rnd p emin (2 powi k) = 2 powi k"
proof -
  have e: "expo emin (2 powi k) = k"
    by (rule expo_eq) (use assms in \<open>simp_all add: power_int_strict_increasing\<close>)
  have u: "ulp p emin (2 powi k) = 2 powi (k - (int p - 1))"
    by (simp add: ulp_def e)
  have "int p - 1 = int (p - 1)" using assms(2) by simp
  then have "(2 :: real) powi (int p - 1) = 2 ^ (p - 1)"
    by (simp only: power_int_of_nat)
  moreover have "2 powi k = (2 :: real) powi (k - (int p - 1)) * 2 powi (int p - 1)"
    using pow2_add [of "k - (int p - 1)" "int p - 1"] by simp
  ultimately have "2 powi k = (2 :: real) powi (k - (int p - 1)) * 2 ^ (p - 1)"
    by (simp only:)
  also have "\<dots> = real_of_int (2 ^ (p - 1)) * 2 powi (k - (int p - 1))" by simp
  finally have "(2 :: real) powi k = real_of_int (2 ^ (p - 1)) * 2 powi (k - (int p - 1))" .
  then have "2 powi k = of_int (2 ^ (p - 1)) * ulp p emin (2 powi k)"
    unfolding u .
  then show ?thesis by (rule rnd_multiple)
qed


text \<open>Rounding never crosses a power of two.\<close>

lemma rnd_le_pow2:
  assumes "x \<le> 2 powi k" and "emin \<le> k" and "0 < p"
  shows "rnd p emin x \<le> 2 powi k"
proof (cases "x \<le> 0")
  case True
  then have "rnd p emin x \<le> 0" by (rule rnd_nonpos)
  also have "(0 :: real) \<le> 2 powi k" by simp
  finally show ?thesis .
next
  case False
  then have x0: "x \<noteq> 0" and ax: "\<bar>x\<bar> = x" by simp_all
  let ?e = "expo emin x"
  have le: "?e \<le> k"
  proof (rule expo_le [OF x0])
    show "\<bar>x\<bar> < 2 powi (k + 1)"
      using assms(1) ax pow2_strict_mono [of k "k + 1"] by simp
  qed (rule assms(2))
  define j where "j = nat (k - ?e + (int p - 1))"
  have j: "k = ?e - (int p - 1) + int j" using le assms(3) by (simp add: j_def)
  have "2 powi k = (2 :: real) powi (?e - (int p - 1)) * 2 powi (int j)"
    by (subst j) (rule pow2_add)
  then have eq: "2 powi k = of_int (2 ^ j) * ulp p emin x" by (simp add: ulp_def)
  have "rnd p emin x \<le> of_int (2 ^ j) * ulp p emin x"
    by (rule rnd_le_multiple) (use assms(1) eq in simp)
  then show ?thesis using eq by simp
qed




lemma rnd_error_bound:
  assumes "\<bar>x\<bar> < 2 powi (k + 1)" and "emin \<le> k"
  shows "\<bar>rnd p emin x - x\<bar> \<le> 2 powi (k - int p)"
proof (cases "x = 0")
  case True
  then show ?thesis by simp
next
  case False
  have le: "expo emin x \<le> k" by (rule expo_le [OF False assms])
  have "\<bar>rnd p emin x - x\<bar> \<le> ulp p emin x / 2" by (rule rnd_error)
  also have "ulp p emin x / 2 = 2 powi (expo emin x - int p)"
  proof -
    have "expo emin x - (int p - 1) = expo emin x - int p + 1" by simp
    then have "ulp p emin x = 2 powi (expo emin x - int p + 1)" by (simp only: ulp_def)
    also have "\<dots> = 2 powi (expo emin x - int p) * 2 powi 1" by (rule pow2_add)
    finally show ?thesis by simp
  qed
  also have "\<dots> \<le> 2 powi (k - int p)" by (rule pow2_mono) (use le in simp)
  finally show ?thesis .
qed

subsection \<open>Doubles\<close>

lemma fl_Num:
  assumes "\<bar>x\<bar> \<le> 2 ^ 1023"
  shows "fl x = Num (rnd 53 (- 1022) x)"
proof -
  have p: "(2 :: real) powi 1023 = 2 ^ 1023" by (simp add: power_int_def)
  have "x \<le> 2 powi 1023" using assms p by simp
  then have u: "rnd 53 (- 1022) x \<le> 2 powi 1023" by (rule rnd_le_pow2) simp_all
  have "- x \<le> 2 powi 1023" using assms p by simp
  then have "rnd 53 (- 1022) (- x) \<le> 2 powi 1023" by (rule rnd_le_pow2) simp_all
  then have l: "- (2 powi 1023) \<le> rnd 53 (- 1022) x" by (simp add: rnd_uminus)
  have "(2 :: real) ^ 1023 < 2 ^ 1024" by simp
  with u l p show ?thesis
    by (simp add: fl_def round_to_def Let_def del: power_strict_increasing_iff)
qed

subsection \<open>Doubles: the unit interval\<close>

lemma rd_unit:
  assumes "0 \<le> x" and "x \<le> 1"
  shows "0 \<le> rd x" and "rd x \<le> 1"
proof -
  show "0 \<le> rd x" using assms(1) by (rule rnd_nonneg)
  have "x \<le> 2 powi 0" using assms(2) by simp
  then have "rd x \<le> 2 powi 0" by (rule rnd_le_pow2) simp_all
  then show "rd x \<le> 1" by simp
qed

lemma fl_unit:
  assumes "0 \<le> x" and "x \<le> 1"
  shows "fl x = Num (rd x)"
  by (rule fl_Num) (use assms in simp)

lemma rd_error_2:
  assumes "\<bar>x\<bar> < 2"
  shows "\<bar>rd x - x\<bar> \<le> 2 powi (- 53)"
  using rnd_error_bound [of x 0 "- 1022" 53] assms by simp

lemma rd_error_4:
  assumes "\<bar>x\<bar> < 4"
  shows "\<bar>rd x - x\<bar> \<le> 2 powi (- 52)"
  using rnd_error_bound [of x 1 "- 1022" 53] assms by simp

lemma rd_1 [simp]: "rd 1 = 1"
  using rnd_pow2 [of "- 1022" 0 53] by simp


lemma rnd_idem:
  assumes "0 < p"
  shows "rnd p emin (rnd p emin x) = rnd p emin x"
proof (cases "x = 0")
  case True
  then show ?thesis by simp
next
  case False
  let ?e = "expo emin x"
  let ?u = "ulp p emin x"
  let ?n = "round_even (x / ?u)"
  have r: "rnd p emin x = of_int ?n * ?u" using False by (simp add: rnd_def)
  have u: "?u = 2 powi (?e - (int p - 1))" by (simp add: ulp_def)
  have ub: "2 ^ p * ?u = 2 powi (?e + 1)"
  proof -
    have "(2 :: real) powi (?e + 1) = 2 powi (int p + (?e - (int p - 1)))" by simp
    also have "\<dots> = 2 powi (int p) * 2 powi (?e - (int p - 1))" by (rule pow2_add)
    finally show ?thesis by (simp add: u)
  qed
  have ax: "\<bar>x\<bar> < 2 ^ p * ?u" unfolding ub by (rule expo_upper [OF False])
  have "x / ?u \<le> real_of_int (2 ^ p)"
    using ax by (simp add: field_simps)
  then have hi: "?n \<le> 2 ^ p" by (rule round_even_le)
  have "real_of_int (- (2 ^ p)) \<le> x / ?u"
    using ax by (simp add: field_simps)
  then have lo: "- (2 ^ p) \<le> ?n" by (rule round_even_ge)
  consider "\<bar>?n\<bar> < 2 ^ p" | "?n = 2 ^ p" | "?n = - (2 ^ p)" using hi lo by linarith
  then show ?thesis
  proof cases
    case 1
    have "rnd p emin (of_int ?n * 2 powi (?e - (int p - 1))) = of_int ?n * 2 powi (?e - (int p - 1))"
      by (rule rnd_representable [OF refl 1]) (use expo_ge_emin [of emin x] in simp)
    then show ?thesis by (simp add: r u)
  next
    case 2
    have "rnd p emin x = 2 powi (?e + 1)" using r 2 ub by simp
    moreover have "rnd p emin (2 powi (?e + 1)) = 2 powi (?e + 1)"
      by (rule rnd_pow2) (use expo_ge_emin [of emin x] assms in simp_all)
    ultimately show ?thesis by simp
  next
    case 3
    have "rnd p emin x = - (2 powi (?e + 1))" using r 3 ub by simp
    moreover have "rnd p emin (2 powi (?e + 1)) = 2 powi (?e + 1)"
      by (rule rnd_pow2) (use expo_ge_emin [of emin x] assms in simp_all)
    ultimately show ?thesis by (simp add: rnd_uminus)
  qed
qed

lemma fl_exact:
  assumes "x = of_int m * 2 powi k" and "\<bar>m\<bar> < 2 ^ 53" and "- 1074 \<le> k" and "\<bar>x\<bar> \<le> 2 ^ 1023"
  shows "fl x = Num x"
proof -
  have "rd x = x" by (rule rnd_representable [OF assms(1,2)]) (use assms(3) in simp)
  then show ?thesis using fl_Num [OF assms(4)] by simp
qed

lemma fl_of_int:
  assumes "\<bar>n\<bar> < 2 ^ 53"
  shows "fl (of_int n) = Num (of_int n)"
proof (rule fl_exact [where m = n and k = 0])
  have "\<bar>real_of_int n\<bar> = real_of_int \<bar>n\<bar>" by simp
  also have "\<dots> \<le> real_of_int (2 ^ 53)" using assms by (simp only: of_int_le_iff)
  also have "\<dots> \<le> 2 ^ 1023" by simp
  finally show "\<bar>real_of_int n\<bar> \<le> 2 ^ 1023" .
qed (use assms in simp_all)

lemma fl_0 [simp]: "fl 0 = Num 0"
  using fl_of_int [of 0] by simp

lemma fl_1 [simp]: "fl 1 = Num 1"
  using fl_of_int [of 1] by simp

lemma fl_minus_1 [simp]: "fl (- 1) = Num (- 1)"
  using fl_of_int [of "- 1"] by simp

lemma fl_numeral [simp]:
  "(numeral w :: int) < 2 ^ 53 \<Longrightarrow> fl (numeral w) = Num (numeral w)"
  using fl_of_int [of "numeral w"] by simp

lemma fl_neg_numeral [simp]:
  "(numeral w :: int) < 2 ^ 53 \<Longrightarrow> fl (- numeral w) = Num (- numeral w)"
  using fl_of_int [of "- numeral w"] by simp

section \<open>The expansion factor\<close>


lemma lerp_same:
  assumes v: "0 \<le> v" "v \<le> 1" and t: "0 \<le> t" "t \<le> 1"
  shows "\<exists>y. MathUtils_lerp (Num v) (Num v) (Num t) = Num y \<and> \<bar>y - v\<bar> \<le> 2 powi (- 50)"
proof -
  define a where "a = rd (1 - t)"
  define b where "b = rd (a * v)"
  define c where "c = rd (t * v)"
  define d where "d = rd (b + c)"
  have a: "0 \<le> a" "a \<le> 1" unfolding a_def using t by (simp_all add: rd_unit)
  have ae: "\<bar>a - (1 - t)\<bar> \<le> 2 powi (- 53)"
    using rd_error_2 [of "1 - t"] t unfolding a_def by simp
  have av: "0 \<le> a * v" "a * v \<le> 1" using a v by (simp_all add: mult_le_one)
  have tv: "0 \<le> t * v" "t * v \<le> 1" using t v by (simp_all add: mult_le_one)
  have b: "0 \<le> b" "b \<le> 1" unfolding b_def using av by (simp_all add: rd_unit)
  have c: "0 \<le> c" "c \<le> 1" unfolding c_def using tv by (simp_all add: rd_unit)
  have be: "\<bar>b - a * v\<bar> \<le> 2 powi (- 53)"
    using rd_error_2 [of "a * v"] av unfolding b_def by simp
  have ce: "\<bar>c - t * v\<bar> \<le> 2 powi (- 53)"
    using rd_error_2 [of "t * v"] tv unfolding c_def by simp
  have de: "\<bar>d - (b + c)\<bar> \<le> 2 powi (- 52)"
    using rd_error_4 [of "b + c"] b c unfolding d_def by simp
  have "\<bar>(a - (1 - t)) * v\<bar> \<le> 2 powi (- 53) * 1"
    unfolding abs_mult by (rule mult_mono) (use ae v in simp_all)
  then have ve: "\<bar>a * v + t * v - v\<bar> \<le> 2 powi (- 53)"
    by (simp add: algebra_simps)
  have p: "(2 :: real) powi (- 50) = 8 * 2 powi (- 53)" "(2 :: real) powi (- 52) = 2 * 2 powi (- 53)"
    by (simp_all add: power_int_minus)
  have "\<bar>d - v\<bar> \<le> \<bar>d - (b + c)\<bar> + \<bar>b - a * v\<bar> + \<bar>c - t * v\<bar> + \<bar>a * v + t * v - v\<bar>"
    by linarith
  also have "\<dots> \<le> 2 powi (- 50)"
    using de be ce ve unfolding p by linarith
  finally have dv: "\<bar>d - v\<bar> \<le> 2 powi (- 50)" .
  have "\<bar>b + c\<bar> \<le> 2 ^ 1023" using b c by simp
  then have f4: "fl (b + c) = Num d" unfolding d_def by (rule fl_Num)
  have f1: "fl (1 - t) = Num a" unfolding a_def using t by (simp add: fl_unit)
  have f2: "fl (a * v) = Num b" unfolding b_def using av by (simp add: fl_unit)
  have f3: "fl (t * v) = Num c" unfolding c_def using tv by (simp add: fl_unit)
  have "MathUtils_lerp (Num v) (Num v) (Num t) = Num d"
    by (simp add: MathUtils_lerp_def jsub_def jneg_def f1 f2 f3 f4)
  with dv show ?thesis by blast
qed

lemma frame_factor:
  assumes "0 \<le> delta" and "delta \<le> 1 / 2"
  shows "jmul (Num delta) (Num 2) = Num (rd (delta * 2))"
    and "0 \<le> rd (delta * 2)" and "rd (delta * 2) \<le> 1" and "rd (rd (delta * 2)) = rd (delta * 2)"
proof -
  have d: "0 \<le> delta * 2" "delta * 2 \<le> 1" using assms by simp_all
  show "jmul (Num delta) (Num 2) = Num (rd (delta * 2))" using d by (simp add: fl_unit)
  show "0 \<le> rd (delta * 2)" "rd (delta * 2) \<le> 1" using d by (simp_all add: rd_unit)
  show "rd (rd (delta * 2)) = rd (delta * 2)" by (rule rnd_idem) simp
qed


lemma expansionAfter_0 [simp]: "expansionAfter delta 0 = Num 0"
  by (simp add: expansionAfter_def runFrames_def)


lemma expansionFrame_other:
  assumes "gesture \<noteq> ''FIST''" and "gesture \<noteq> ''OPEN_HAND''"
  shows "expansionFrame gesture delta e = MathUtils_lerp e e (jmul delta (Num 2))"
  using assms by (simp add: expansionFrame_def targetExpansion_def)


lemma half_exact [simp]: "fl (1 / 2) = Num (1 / 2)"
  by (rule fl_exact [where m = 1 and k = "- 1"]) (simp_all add: power_int_minus)

lemma quarter_exact [simp]: "fl (1 / 4) = Num (1 / 4)"
  by (rule fl_exact [where m = 1 and k = "- 2"]) (simp_all add: power_int_minus)

lemma three_quarters_exact [simp]: "fl (3 / 4) = Num (3 / 4)"
  by (rule fl_exact [where m = 3 and k = "- 2"]) (simp_all add: power_int_minus)

lemma sixteenth_exact [simp]: "fl (1 / 16) = Num (1 / 16)"
  by (rule fl_exact [where m = 1 and k = "- 4"]) (simp_all add: power_int_minus)

lemma three_sixteenths_exact [simp]: "fl (3 / 16) = Num (3 / 16)"
  by (rule fl_exact [where m = 3 and k = "- 4"]) (simp_all add: power_int_minus)










text \<open>
  Claim C4, amended. On a frame whose gesture is neither \<open>FIST\<close> nor \<open>OPEN_HAND\<close> the
  target is the current expansion value, not the target of an earlier gesture. The frame
  then computes \<open>lerp(value, value, delta * 2.0)\<close>, which leaves the value where it is up
  to rounding: for a value between 0 and 1 and a frame delta of at most one half of a
  second, the new value differs from the old one by at most \<open>2^-50\<close>.
\<close>

theorem target_is_current_value:
  assumes "gesture \<noteq> ''FIST''" and "gesture \<noteq> ''OPEN_HAND''"
    and "0 \<le> v" and "v \<le> 1" and "0 \<le> delta" and "delta \<le> 1 / 2"
  shows "targetExpansion gesture e = e
       \<and> (\<exists>y. expansionFrame gesture (Num delta) (Num v) = Num y \<and> \<bar>y - v\<bar> \<le> 2 powi (- 50))"
proof -
  note f = frame_factor [OF assms(5,6)]
  have "\<exists>y. MathUtils_lerp (Num v) (Num v) (Num (rd (delta * 2))) = Num y \<and> \<bar>y - v\<bar> \<le> 2 powi (- 50)"
    by (rule lerp_same [OF assms(3,4) f(2,3)])
  then show ?thesis
    using assms(1,2) by (simp add: expansionFrame_other f(1) targetExpansion_def del: jmul.simps(1))
qed

text \<open>
  Claim C4, witness: the gesture \<open>NONE\<close> at the value one quarter, with a frame delta of
  an eighth of a second.
\<close>

theorem target_is_current_value_witness:
  "''NONE'' \<noteq> ''FIST'' \<and> ''NONE'' \<noteq> ''OPEN_HAND''
   \<and> targetExpansion ''NONE'' (Num (1 / 4)) = Num (1 / 4)
   \<and> (\<exists>y. expansionFrame ''NONE'' (Num (1 / 8)) (Num (1 / 4)) = Num y \<and> \<bar>y - 1 / 4\<bar> \<le> 2 powi (- 50))"
  using target_is_current_value [of "''NONE''" "1 / 4" "1 / 8" "Num (1 / 4)"] by simp

text \<open>
  Claim C4, counterexample. After one \<open>OPEN_HAND\<close> frame of an eighth of a second the
  value is one quarter. On a following \<open>NONE\<close> frame the target of the code is one
  quarter, where the target held from the last gesture is 1, and the value stays at one
  quarter instead of approaching 1.
\<close>

theorem target_not_held:
  "runFrames [(''OPEN_HAND'', Num (1 / 8))] = Num (1 / 4)
   \<and> targetExpansion ''NONE'' (runFrames [(''OPEN_HAND'', Num (1 / 8))]) = Num (1 / 4)
   \<and> heldTarget [''OPEN_HAND'', ''NONE''] = Num 1
   \<and> runFrames [(''OPEN_HAND'', Num (1 / 8)), (''NONE'', Num (1 / 8))] = Num (1 / 4)"
  by (simp add: targetExpansion_def runFrames_def heldTarget_def expansionFrame_def
      MathUtils_lerp_def jsub_def jneg_def)

section \<open>Doubles: integers and bounds\<close>






section \<open>The loop \<open>for (let i = 0; i < n; i++)\<close>\<close>

lemma fold_None [simp]:
  "fold (\<lambda>i r. case r of None \<Rightarrow> None | Some s \<Rightarrow> body i s) xs None = None"
  by (induction xs) simp_all










section \<open>The double-precision generator: what one emission changes\<close>

lemma valid_rng_f64_advance [simp]: "valid_rng_f64 g \<Longrightarrow> valid_rng_f64 (advance k g)"
  by (simp add: valid_rng_f64_def advance_def)

lemma snd_Math_random_f64 [simp]: "snd (Math_random_f64 g) = advance 1 g"
  by (simp add: Math_random_f64_def)

lemma fst_Math_random_f64 [simp]: "fst (Math_random_f64 g) = Num (g 0)"
  by (simp add: Math_random_f64_def)

lemma snd_randomRange_f64 [simp]: "snd (randomRange_f64 lo hi g) = advance 1 g"
  by (simp add: randomRange_f64_def split_def)


lemma snd_getRandomSpacePos_f64 [simp]: "snd (getRandomSpacePos_f64 M g) = advance 3 g"
  by (simp add: getRandomSpacePos_f64_def split_def Let_def numeral_3_eq_3)





lemma woodParticle_f64_blossomBuffer [simp]:
  "blossomBuffer_f64 (woodParticle_f64 M start endp radius isTrunk u v n i st) = blossomBuffer_f64 st"
  by (simp add: woodParticle_f64_def split_def Let_def)

lemma woodParticle_f64_leafNodesVar [simp]:
  "leafNodesVar_f64 (woodParticle_f64 M start endp radius isTrunk u v n i st) = leafNodesVar_f64 st"
  by (simp add: woodParticle_f64_def split_def Let_def)

lemma sizes_add_f64 [simp]:
  "length (sizes_f64 (ParticleBuffer_add_f64 b pos tgt col sz dr ph)) = Suc (length (sizes_f64 b))"
  by (simp add: ParticleBuffer_add_f64_def)



lemma blossomParticle_f64_woodBuffer [simp]:
  "woodBuffer_f64 (blossomParticle_f64 M c sx sy sz st) = woodBuffer_f64 st"
  by (simp add: blossomParticle_f64_def split_def Let_def)

lemma blossomParticle_f64_leafNodesVar [simp]:
  "leafNodesVar_f64 (blossomParticle_f64 M c sx sy sz st) = leafNodesVar_f64 st"
  by (simp add: blossomParticle_f64_def split_def Let_def)




lemma blossomCluster_f64_woodBuffer [simp]:
  "woodBuffer_f64 (blossomCluster_f64 M endp st) = woodBuffer_f64 st"
  by (simp add: blossomCluster_f64_def split_def Let_def fold_unchanged)

lemma blossomCluster_f64_leafNodesVar [simp]:
  "leafNodesVar_f64 (blossomCluster_f64 M endp st) = leafNodesVar_f64 st"
  by (simp add: blossomCluster_f64_def split_def Let_def fold_unchanged)



lemma blossomsAt_f64_woodBuffer [simp]:
  "woodBuffer_f64 (blossomsAt_f64 M endp st) = woodBuffer_f64 st"
  by (simp add: blossomsAt_f64_def Let_def fold_unchanged)







section \<open>The number of child branches\<close>









lemma is_double_0 [simp]: "is_double 0"
  by (simp add: is_double_def)

lemma is_double_half [simp]: "is_double (1 / 2)"
proof -
  have "rd (1 / 2) = 1 / 2"
    by (rule rnd_representable [where m = 1 and k = "- 1"]) (simp_all add: power_int_minus)
  then show ?thesis by (simp add: is_double_def)
qed


section \<open>One call of growBranch\<close>








section \<open>Returning\<close>






section \<open>Children of a branch, counted by their leaf nodes\<close>




section \<open>Overflow, and a branch length that is not a number\<close>


lemma jadd_NaN_right [simp]: "jadd a NaN = NaN"
  by (cases a) simp_all

lemma jmul_NaN_right [simp]: "jmul a NaN = NaN"
  by (cases a) simp_all

lemma jsub_NaN_left [simp]: "jsub NaN b = NaN"
  by (simp add: jsub_def)




subsection \<open>NaN\<close>











section \<open>Calls of generateTree in double precision\<close>

lemma sizes_toData_f64 [simp]: "length (sizes_f64 (toData_f64 b)) = length (sizes_f64 b)"
  by (simp add: toData_f64_def Float32Array_from_f64_def)

lemma positions_toData_f64 [simp]:
  "positions_f64 (toData_f64 b) = map fround (positions_f64 b)"
  by (simp add: toData_f64_def Float32Array_from_f64_def)














end
